theory Spec2Isabelle
  imports Main "HOL-Library.AList" "HOL-Library.Multiset"
begin

section \<open>Python values used by moto/logs/models.py\<close>

text \<open>
  A Python \<open>str\<close> is a sequence of Unicode code points and \<open>len\<close> counts code points.
  Messages are only ever measured, so they are kept as lists of code points. Pagination
  tokens are inspected character by character; they are kept as \<open>string\<close>, whose
  characters are the code points below 256.
\<close>

type_synonym unicode = "nat list"

definition len :: "'a list \<Rightarrow> int" where
  "len xs = int (length xs)"

text \<open>Number of bytes of one code point, and of a whole text, in UTF-8.\<close>

definition utf8_size :: "nat \<Rightarrow> nat" where
  "utf8_size cp =
     (if cp < 0x80 then 1 else if cp < 0x800 then 2 else if cp < 0x10000 then 3 else 4)"

definition utf8_len :: "unicode \<Rightarrow> int" where
  "utf8_len m = int (sum_list (map utf8_size m))"

text \<open>
  The slice \<open>xs[a:b]\<close>: a negative bound counts from the end, and both bounds are cut
  to the list.
\<close>

definition slice_bound :: "nat \<Rightarrow> int \<Rightarrow> nat" where
  "slice_bound n i = (if i < 0 then nat (max 0 (int n + i)) else min (nat i) n)"

definition py_slice :: "'a list \<Rightarrow> int \<Rightarrow> int \<Rightarrow> 'a list" where
  "py_slice xs a b =
     (let lo = slice_bound (length xs) a; hi = slice_bound (length xs) b
      in take (hi - lo) (drop lo xs))"

subsection \<open>\<open>"{:056d}".format(n)\<close> and \<open>str(n)\<close>\<close>

definition digit_char :: "nat \<Rightarrow> char" where
  "digit_char d = char_of (48 + d)"

function digits_of :: "nat \<Rightarrow> string" where
  "digits_of n = (if n < 10 then [digit_char n] else digits_of (n div 10) @ [digit_char (n mod 10)])"
  by pat_completeness auto
termination
  by (relation "measure id") auto

declare digits_of.simps [simp del]

definition zfill :: "nat \<Rightarrow> string \<Rightarrow> string" where
  "zfill w s = replicate (w - length s) (CHR ''0'') @ s"

text \<open>
  Width 56 with zero fill: the sign, when there is one, comes first and counts towards
  the width; a longer number is never cut.
\<close>

definition format_056d :: "int \<Rightarrow> string" where
  "format_056d i =
     (if i < 0 then CHR ''-'' # zfill 55 (digits_of (nat (- i)))
      else zfill 56 (digits_of (nat i)))"

definition str_int :: "int \<Rightarrow> string" where
  "str_int i = (if i < 0 then CHR ''-'' # digits_of (nat (- i)) else digits_of (nat i))"

subsection \<open>\<open>int(s)\<close> on a string\<close>

text \<open>
  \<open>int\<close> strips white space at both ends, accepts one sign, then decimal digits in
  which single underscores may separate digits. Anything else raises \<open>ValueError\<close>,
  here \<open>None\<close>. Among the code points below 256 the white space is tab to carriage
  return, space, U+0085 and U+00A0, and the decimal digits are \<open>0\<close> to \<open>9\<close>. No bound
  on the number of digits is modelled.
\<close>

definition is_space :: "char \<Rightarrow> bool" where
  "is_space c =
     ((9 \<le> (of_char c :: nat) \<and> (of_char c :: nat) \<le> 13) \<or> (of_char c :: nat) = 32
      \<or> (of_char c :: nat) = 133 \<or> (of_char c :: nat) = 160)"

definition is_digit :: "char \<Rightarrow> bool" where
  "is_digit c = (48 \<le> (of_char c :: nat) \<and> (of_char c :: nat) \<le> 57)"

definition digit_val :: "char \<Rightarrow> nat" where
  "digit_val c = of_char c - 48"

definition strip :: "string \<Rightarrow> string" where
  "strip s = rev (dropWhile is_space (rev (dropWhile is_space s)))"

fun digits_val :: "nat \<Rightarrow> string \<Rightarrow> nat option" where
  "digits_val acc [] = Some acc"
| "digits_val acc (c # cs) =
     (if is_digit c then digits_val (10 * acc + digit_val c) cs
      else if c = CHR ''_'' then
        (case cs of
           [] \<Rightarrow> None
         | d # ds \<Rightarrow> if is_digit d then digits_val (10 * acc + digit_val d) ds else None)
      else None)"

definition parse_nat :: "string \<Rightarrow> nat option" where
  "parse_nat s =
     (case s of
        [] \<Rightarrow> None
      | c # cs \<Rightarrow> if is_digit c then digits_val (digit_val c) cs else None)"

definition py_int :: "string \<Rightarrow> int option" where
  "py_int s =
     (case strip s of
        [] \<Rightarrow> None
      | c # cs \<Rightarrow>
          if c = CHR ''-'' then map_option (\<lambda>n. - int n) (parse_nat cs)
          else if c = CHR ''+'' then map_option int (parse_nat cs)
          else map_option int (parse_nat (c # cs)))"

section \<open>Exceptions\<close>

datatype error =
    ResourceNotFoundException
  | ResourceAlreadyExistsException
  | InvalidParameterException string
  | NotImplementedError string

section \<open>LogEvent\<close>

record log_event =
  ingestionTime :: int
  timestamp :: int
  message :: unicode
  eventId :: int

text \<open>One item of the \<open>log_events\<close> argument: a dict with keys timestamp and message.\<close>

record input_log_event =
  in_timestamp :: int
  in_message :: unicode

text \<open>
  \<open>LogEvent.__init__\<close>: the class attribute \<open>_event_id\<close> is passed in and the caller
  continues with \<open>_event_id + 1\<close>.
\<close>

definition LogEvent :: "int \<Rightarrow> int \<Rightarrow> input_log_event \<Rightarrow> log_event" where
  "LogEvent event_id ingestion_time log_event =
     \<lparr> ingestionTime = ingestion_time,
       timestamp = in_timestamp log_event,
       message = in_message log_event,
       eventId = event_id \<rparr>"

record filter_dict =
  fd_eventId :: string
  fd_ingestionTime :: int
  fd_logStreamName :: string
  fd_message :: unicode
  fd_timestamp :: int

record response_dict =
  rd_ingestionTime :: int
  rd_message :: unicode
  rd_timestamp :: int

text \<open>\<open>to_filter_dict\<close>, with the \<open>logStreamName\<close> entry the stream adds right after.\<close>

definition to_filter_dict :: "string \<Rightarrow> log_event \<Rightarrow> filter_dict" where
  "to_filter_dict stream_name e =
     \<lparr> fd_eventId = str_int (eventId e),
       fd_ingestionTime = ingestionTime e,
       fd_logStreamName = stream_name,
       fd_message = message e,
       fd_timestamp = timestamp e \<rparr>"

definition to_response_dict :: "log_event \<Rightarrow> response_dict" where
  "to_response_dict e =
     \<lparr> rd_ingestionTime = ingestionTime e,
       rd_message = message e,
       rd_timestamp = timestamp e \<rparr>"

section \<open>LogStream\<close>

record log_stream =
  region :: string
  arn :: string
  creationTime :: int
  firstEventTimestamp :: "int option"
  lastEventTimestamp :: "int option"
  lastIngestionTime :: "int option"
  logStreamName :: string
  storedBytes :: int
  uploadSequenceToken :: int
  events :: "log_event list"

text \<open>
  \<open>LogStream.__init__\<close>: \<open>log_id\<close> is the class attribute \<open>_log_ids\<close> and \<open>now\<close> the
  clock reading \<open>int(unix_time_millis())\<close>.
\<close>

definition LogStream :: "int \<Rightarrow> int \<Rightarrow> string \<Rightarrow> string \<Rightarrow> string \<Rightarrow> log_stream" where
  "LogStream log_id now region' log_group name' =
     \<lparr> region = region',
       arn = ''arn:aws:logs:'' @ region' @ '':'' @ str_int log_id @ '':log-group:'' @ log_group
             @ '':log-stream:'' @ name',
       creationTime = now,
       firstEventTimestamp = None,
       lastEventTimestamp = None,
       lastIngestionTime = None,
       logStreamName = name',
       storedBytes = 0,
       uploadSequenceToken = 0,
       events = [] \<rparr>"

subsection \<open>put_log_events\<close>

fun new_events :: "int \<Rightarrow> int \<Rightarrow> input_log_event list \<Rightarrow> log_event list" where
  "new_events event_id now [] = []"
| "new_events event_id now (x # xs) = LogEvent event_id now x # new_events (event_id + 1) now xs"

text \<open>
  The call reads the clock once (\<open>now\<close>) and draws event ids from \<open>event_id\<close> on. It
  returns the sequence token, the stream as updated, and the next free event id.
\<close>

definition put_log_events ::
  "int \<Rightarrow> int \<Rightarrow> input_log_event list \<Rightarrow> log_stream \<Rightarrow> string \<times> log_stream \<times> int" where
  "put_log_events now event_id log_events self =
     (let self1 = self\<lparr> lastIngestionTime := Some now \<rparr>;
          self2 = self1\<lparr> storedBytes := storedBytes self1
                    + sum_list (map (\<lambda>log_event. len (in_message log_event)) log_events) \<rparr>;
          self3 = self2\<lparr> events := events self2 @ new_events event_id now log_events \<rparr>;
          self4 = self3\<lparr> uploadSequenceToken := uploadSequenceToken self3 + 1 \<rparr>
      in (format_056d (uploadSequenceToken self4), self4, event_id + len log_events))"

subsection \<open>get_log_events\<close>

text \<open>A bound that is \<open>None\<close> or 0 is falsy and filters nothing.\<close>

definition filter_func :: "int option \<Rightarrow> int option \<Rightarrow> log_event \<Rightarrow> bool" where
  "filter_func start_time end_time event =
     (if (case start_time of None \<Rightarrow> False | Some t \<Rightarrow> t \<noteq> 0 \<and> timestamp event < t) then False
      else if (case end_time of None \<Rightarrow> False | Some t \<Rightarrow> t \<noteq> 0 \<and> timestamp event > t) then False
      else True)"

definition invalid_token :: error where
  "invalid_token = InvalidParameterException ''The specified nextToken is invalid.''"

text \<open>
  \<open>token[0]\<close> raises on the empty string and \<open>int(token[2:])\<close> on a suffix that is not
  a number; both are caught and turned into the same exception.
\<close>

definition get_index_and_direction_from_token :: "string option \<Rightarrow> error + (char option \<times> int)" where
  "get_index_and_direction_from_token token =
     (case token of
        None \<Rightarrow> Inr (None, 0)
      | Some t \<Rightarrow>
          (case t of
             [] \<Rightarrow> Inl invalid_token
           | c # _ \<Rightarrow>
               (case py_int (drop 2 t) of
                  None \<Rightarrow> Inl invalid_token
                | Some i \<Rightarrow> Inr (Some c, i))))"

text \<open>The time-filtered events in ascending order of timestamp (\<open>sorted\<close> is stable).\<close>

definition sorted_events :: "log_stream \<Rightarrow> int option \<Rightarrow> int option \<Rightarrow> log_event list" where
  "sorted_events self start_time end_time =
     sort_key timestamp (filter (filter_func start_time end_time) (events self))"

text \<open>The \<open>if direction is None ... elif ... else raise\<close> chain: start and end index before clamping.\<close>

definition window_indices ::
  "char option \<Rightarrow> int \<Rightarrow> int \<Rightarrow> int \<Rightarrow> bool \<Rightarrow> error + (int \<times> int)" where
  "window_indices direction index limit_index final_index start_from_head =
     (case direction of
        None \<Rightarrow>
          if start_from_head then Inr (0, 0 + limit_index)
          else Inr (final_index - limit_index, final_index)
      | Some d \<Rightarrow>
          if d = CHR ''f'' then Inr (index + 1, index + 1 + limit_index)
          else if d = CHR ''b'' then Inr (index - 1 - limit_index, index - 1)
          else Inl invalid_token)"

type_synonym events_page = "response_dict list \<times> string \<times> string"

definition page_result :: "log_event list \<Rightarrow> int \<Rightarrow> int \<Rightarrow> events_page" where
  "page_result evs start_index end_index =
     (map to_response_dict (py_slice evs start_index (end_index + 1)),
      ''b/'' @ format_056d start_index,
      ''f/'' @ format_056d end_index)"

definition clamp_end :: "log_event list \<Rightarrow> int \<Rightarrow> int \<Rightarrow> int \<Rightarrow> events_page" where
  "clamp_end evs start_index end_index final_index =
     (if end_index > final_index then page_result evs start_index final_index
      else if end_index < 0 then ([], ''b/'' @ format_056d 0, ''f/'' @ format_056d 0)
      else page_result evs start_index end_index)"

definition clamp_start :: "log_event list \<Rightarrow> int \<Rightarrow> int \<Rightarrow> int \<Rightarrow> events_page" where
  "clamp_start evs start_index end_index final_index =
     (if start_index < 0 then clamp_end evs 0 end_index final_index
      else if start_index > final_index then
        ([], ''b/'' @ format_056d final_index, ''f/'' @ format_056d final_index)
      else clamp_end evs start_index end_index final_index)"

text \<open>The arguments \<open>log_group_name\<close> and \<open>log_stream_name\<close> are not read and are left out.\<close>

definition get_log_events ::
  "log_stream \<Rightarrow> int option \<Rightarrow> int option \<Rightarrow> int \<Rightarrow> string option \<Rightarrow> bool \<Rightarrow> error + events_page" where
  "get_log_events self start_time end_time limit next_token start_from_head =
     (let evs = sorted_events self start_time end_time in
      case get_index_and_direction_from_token next_token of
        Inl e \<Rightarrow> Inl e
      | Inr (direction, index) \<Rightarrow>
          (let limit_index = limit - 1;
               final_index = len evs - 1 in
           case window_indices direction index limit_index final_index start_from_head of
             Inl e \<Rightarrow> Inl e
           | Inr (start_index, end_index) \<Rightarrow>
               Inr (clamp_start evs start_index end_index final_index)))"

subsection \<open>filter_log_events\<close>

text \<open>A pattern that is \<open>None\<close> or the empty string is falsy.\<close>

definition filter_log_events ::
  "log_stream \<Rightarrow> int option \<Rightarrow> int option \<Rightarrow> string option \<Rightarrow> error + filter_dict list" where
  "filter_log_events self start_time end_time filter_pattern =
     (if (case filter_pattern of None \<Rightarrow> False | Some p \<Rightarrow> p \<noteq> []) then
        Inl (NotImplementedError ''filter_pattern is not yet implemented'')
      else
        Inr (map (to_filter_dict (logStreamName self))
               (sort_key timestamp (filter (filter_func start_time end_time) (events self)))))"

subsection \<open>Calls as state transformers\<close>



text \<open>
  A sequence of \<open>put_log_events\<close> calls on one stream, each with its own clock reading
  and batch: the tokens returned, the stream afterwards and the next free event id.
\<close>

fun put_all ::
  "(int \<times> input_log_event list) list \<Rightarrow> int \<Rightarrow> log_stream \<Rightarrow> string list \<times> log_stream \<times> int" where
  "put_all [] event_id self = ([], self, event_id)"
| "put_all ((now, log_events) # calls) event_id self =
     (case put_log_events now event_id log_events self of
        (token, self', event_id') \<Rightarrow>
          (case put_all calls event_id' self' of
             (tokens, self'', event_id'') \<Rightarrow> (token # tokens, self'', event_id'')))"

text \<open>
  A client paging forward: \<open>k\<close> calls in a row, each with the forward token of the
  call before and the same limit.
\<close>

fun forward_pages ::
  "nat \<Rightarrow> log_stream \<Rightarrow> int option \<Rightarrow> int option \<Rightarrow> int \<Rightarrow> string option \<Rightarrow> bool
     \<Rightarrow> response_dict list list" where
  "forward_pages 0 self start_time end_time limit next_token start_from_head = []"
| "forward_pages (Suc k) self start_time end_time limit next_token start_from_head =
     (case get_log_events self start_time end_time limit next_token start_from_head of
        Inl e \<Rightarrow> []
      | Inr (page, backward_token, forward_token) \<Rightarrow>
          page # forward_pages k self start_time end_time limit (Some forward_token) start_from_head)"

section \<open>LogGroup\<close>

text \<open>A dict is an association list in insertion order with distinct keys.\<close>

record log_group =
  name :: string
  group_region :: string
  group_arn :: string
  group_creationTime :: int
  tags :: "(string \<times> string) list option"
  streams :: "(string \<times> log_stream) list"
  retentionInDays :: "int option"

definition LogGroup :: "int \<Rightarrow> string \<Rightarrow> string \<Rightarrow> (string \<times> string) list option \<Rightarrow> log_group" where
  "LogGroup now region' name' tags' =
     \<lparr> name = name',
       group_region = region',
       group_arn = ''arn:aws:logs:'' @ region' @ '':1:log-group:'' @ name',
       group_creationTime = now,
       tags = tags',
       streams = [],
       retentionInDays = None \<rparr>"

text \<open>
  The streams named in \<open>log_stream_names\<close>, in the order of the dict; \<open>None\<close> or an
  empty list selects every stream.
\<close>

definition selected_streams :: "log_group \<Rightarrow> string list option \<Rightarrow> log_stream list" where
  "selected_streams self log_stream_names =
     map snd (filter (\<lambda>(name', stream).
        (case log_stream_names of None \<Rightarrow> True | Some ns \<Rightarrow> ns = [] \<or> name' \<in> set ns))
        (streams self))"

text \<open>The loop \<open>for stream in streams: events += stream.filter_log_events(...)\<close>.\<close>

fun collect_events ::
  "log_stream list \<Rightarrow> int option \<Rightarrow> int option \<Rightarrow> string option \<Rightarrow> filter_dict list
     \<Rightarrow> error + filter_dict list" where
  "collect_events [] start_time end_time filter_pattern acc = Inr acc"
| "collect_events (stream # rest) start_time end_time filter_pattern acc =
     (case filter_log_events stream start_time end_time filter_pattern of
        Inl e \<Rightarrow> Inl e
      | Inr evs \<Rightarrow> collect_events rest start_time end_time filter_pattern (acc @ evs))"

type_synonym filter_page = "filter_dict list \<times> int option \<times> (string \<times> bool) list"

definition LogGroup_filter_log_events ::
  "log_group \<Rightarrow> string list option \<Rightarrow> int option \<Rightarrow> int option \<Rightarrow> int \<Rightarrow> int option
     \<Rightarrow> string option \<Rightarrow> bool \<Rightarrow> error + filter_page" where
  "LogGroup_filter_log_events self log_stream_names start_time end_time limit next_token
       filter_pattern interleaved =
     (let strs = selected_streams self log_stream_names in
      case collect_events strs start_time end_time filter_pattern [] of
        Inl e \<Rightarrow> Inl e
      | Inr evs0 \<Rightarrow>
          (let evs = (if interleaved then sort_key fd_timestamp evs0 else evs0);
               tok = (case next_token of None \<Rightarrow> 0 | Some t \<Rightarrow> t);
               events_page = py_slice evs tok (tok + limit);
               tok' = tok + limit;
               next_token' = (if tok' \<ge> len evs then None else Some tok');
               searched_streams = map (\<lambda>stream. (logStreamName stream, True)) strs
           in Inr (events_page, next_token', searched_streams)))"

text \<open>
  What one stream contributes to a group query (its time-filtered events in ascending
  order of timestamp, in filter form), and the contributions of the selected streams one
  after the other in the order of the dict.
\<close>

definition stream_part :: "log_stream \<Rightarrow> int option \<Rightarrow> int option \<Rightarrow> filter_dict list" where
  "stream_part stream start_time end_time =
     map (to_filter_dict (logStreamName stream)) (sorted_events stream start_time end_time)"

definition concatenated_parts ::
  "log_group \<Rightarrow> string list option \<Rightarrow> int option \<Rightarrow> int option \<Rightarrow> filter_dict list" where
  "concatenated_parts self log_stream_names start_time end_time =
     concat (map (\<lambda>stream. stream_part stream start_time end_time)
               (selected_streams self log_stream_names))"

section \<open>LogsBackend\<close>

text \<open>
  The metric filter store is a collaborator outside this module; the backend is
  parametric in it.
\<close>

record 'm logs_backend =
  region_name :: string
  groups :: "(string \<times> log_group) list"
  filters :: 'm

definition create_log_group ::
  "int \<Rightarrow> string \<Rightarrow> (string \<times> string) list option \<Rightarrow> 'm logs_backend
     \<Rightarrow> error + 'm logs_backend" where
  "create_log_group now log_group_name tags' self =
     (if log_group_name \<in> set (map fst (groups self)) then Inl ResourceAlreadyExistsException
      else Inr (self\<lparr> groups :=
                  AList.update log_group_name (LogGroup now (region_name self) log_group_name tags')
                    (groups self) \<rparr>))"

definition delete_log_group :: "string \<Rightarrow> 'm logs_backend \<Rightarrow> error + 'm logs_backend" where
  "delete_log_group log_group_name self =
     (if log_group_name \<notin> set (map fst (groups self)) then Inl ResourceNotFoundException
      else Inr (self\<lparr> groups := AList.delete log_group_name (groups self) \<rparr>))"

text \<open>The stream of the running example: one batch with timestamps 10 to 50.\<close>

definition example_events :: "input_log_event list" where
  "example_events =
     map (\<lambda>t. \<lparr> in_timestamp = t, in_message = [] \<rparr>) [10, 20, 30, 40, 50]"

definition example_stream :: log_stream where
  "example_stream =
     fst (snd (put_log_events 1000 0 example_events
                 (LogStream 0 0 ''us-east-1'' ''group'' ''stream'')))"

text \<open>A group of two streams whose timestamps interleave.\<close>

definition example_group :: log_group where
  "example_group =
     (LogGroup 0 ''us-east-1'' ''group'' None)\<lparr> streams :=
        [(''a'', fst (snd (put_log_events 1000 0
                   (map (\<lambda>t. \<lparr> in_timestamp = t, in_message = [] \<rparr>) [10, 50, 30])
                   (LogStream 0 0 ''us-east-1'' ''group'' ''a'')))),
         (''b'', fst (snd (put_log_events 2000 3
                   (map (\<lambda>t. \<lparr> in_timestamp = t, in_message = [] \<rparr>) [40, 20])
                   (LogStream 1 0 ''us-east-1'' ''group'' ''b''))))] \<rparr>"

text \<open>Two calls with ASCII messages, and an empty backend.\<close>

definition ascii_calls :: "(int \<times> input_log_event list) list" where
  "ascii_calls =
     [(1000, [\<lparr> in_timestamp = 10, in_message = [104, 105] \<rparr>]),
      (2000, [\<lparr> in_timestamp = 30, in_message = [97] \<rparr>,
              \<lparr> in_timestamp = 20, in_message = [98, 99, 100] \<rparr>])]"

definition example_backend :: "unit logs_backend" where
  "example_backend = \<lparr> region_name = ''us-east-1'', groups = [], filters = () \<rparr>"

section \<open>Formatting and parsing of indices\<close>

lemma is_digit_digit_char: "d < 10 \<Longrightarrow> is_digit (digit_char d)"
  by (simp add: is_digit_def digit_char_def)

lemma digit_val_digit_char: "d < 10 \<Longrightarrow> digit_val (digit_char d) = d"
  by (simp add: digit_val_def digit_char_def)

lemma not_space_digit: "is_digit c \<Longrightarrow> \<not> is_space c"
  by (auto simp: is_digit_def is_space_def)

lemma digits_of_digits: "list_all is_digit (digits_of n)"
proof (induction n rule: digits_of.induct)
  case (1 n)
  show ?case
  proof (cases "n < 10")
    case True
    then show ?thesis by (subst digits_of.simps) (simp add: is_digit_digit_char)
  next
    case False
    with 1 show ?thesis by (subst digits_of.simps) (simp add: is_digit_digit_char)
  qed
qed

lemma digits_of_nonempty: "digits_of n \<noteq> []"
  by (subst digits_of.simps) simp

lemma digits_val_digits:
  "list_all is_digit cs \<Longrightarrow> digits_val acc cs = Some (foldl (\<lambda>a c. 10 * a + digit_val c) acc cs)"
  by (induction cs arbitrary: acc) auto

lemma foldl_digits_of: "foldl (\<lambda>a c. 10 * a + digit_val c) 0 (digits_of n) = n"
proof (induction n rule: digits_of.induct)
  case (1 n)
  show ?case
  proof (cases "n < 10")
    case True
    then show ?thesis by (subst digits_of.simps) (simp add: digit_val_digit_char)
  next
    case False
    with 1 show ?thesis by (subst digits_of.simps) (simp add: digit_val_digit_char)
  qed
qed

lemma foldl_zeros: "foldl (\<lambda>a c. 10 * a + digit_val c) 0 (replicate k (CHR ''0'')) = 0"
  by (induction k) (simp_all add: digit_val_def)

lemma zfill_digits: "list_all is_digit s \<Longrightarrow> list_all is_digit (zfill w s)"
  by (auto simp: zfill_def list_all_iff is_digit_def)

lemma zfill_nonempty: "s \<noteq> [] \<Longrightarrow> zfill w s \<noteq> []"
  by (simp add: zfill_def)

lemma parse_nat_digits:
  assumes "list_all is_digit s" "s \<noteq> []"
  shows "parse_nat s = Some (foldl (\<lambda>a c. 10 * a + digit_val c) 0 s)"
proof -
  from assms obtain c cs where s: "s = c # cs" and c: "is_digit c" and cs: "list_all is_digit cs"
    by (cases s) auto
  show ?thesis using c cs by (simp add: s parse_nat_def digits_val_digits)
qed

lemma parse_nat_zfill: "parse_nat (zfill w (digits_of n)) = Some n"
proof -
  have "parse_nat (zfill w (digits_of n))
      = Some (foldl (\<lambda>a c. 10 * a + digit_val c) 0 (zfill w (digits_of n)))"
    by (rule parse_nat_digits) (simp_all add: zfill_digits digits_of_digits zfill_nonempty digits_of_nonempty)
  also have "foldl (\<lambda>a c. 10 * a + digit_val c) 0 (zfill w (digits_of n)) = n"
    by (simp add: zfill_def foldl_zeros foldl_digits_of)
  finally show ?thesis .
qed

lemma strip_id:
  assumes "s \<noteq> []" "\<not> is_space (hd s)" "\<not> is_space (last s)"
  shows "strip s = s"
proof -
  from assms have "dropWhile is_space s = s" by (cases s) auto
  moreover from assms have "dropWhile is_space (rev s) = rev s"
    by (cases "rev s") (auto simp: last_rev hd_rev dest: arg_cong[where f = hd])
  ultimately show ?thesis by (simp add: strip_def)
qed

lemma last_zfill: "s \<noteq> [] \<Longrightarrow> last (zfill w s) = last s"
  by (simp add: zfill_def)

lemma digits_last: "list_all is_digit s \<Longrightarrow> s \<noteq> [] \<Longrightarrow> is_digit (last s)"
  by (simp add: list_all_iff)

lemma digits_hd: "list_all is_digit s \<Longrightarrow> s \<noteq> [] \<Longrightarrow> is_digit (hd s)"
  by (simp add: list_all_iff)

lemma py_int_format_056d: "py_int (format_056d i) = Some i"
proof (cases "i < 0")
  case True
  let ?z = "zfill 55 (digits_of (nat (- i)))"
  have d: "list_all is_digit ?z" and ne: "?z \<noteq> []"
    by (simp_all add: zfill_digits digits_of_digits zfill_nonempty digits_of_nonempty)
  have "\<not> is_space (last ?z)" using digits_last[OF d ne] not_space_digit by blast
  then have "strip (CHR ''-'' # ?z) = CHR ''-'' # ?z"
    using ne by (intro strip_id) (simp_all add: is_space_def)
  then show ?thesis using True
    by (simp add: py_int_def format_056d_def parse_nat_zfill)
next
  case False
  let ?z = "zfill 56 (digits_of (nat i))"
  have d: "list_all is_digit ?z" and ne: "?z \<noteq> []"
    by (simp_all add: zfill_digits digits_of_digits zfill_nonempty digits_of_nonempty)
  have s: "strip ?z = ?z"
    using digits_last[OF d ne] digits_hd[OF d ne] not_space_digit ne by (intro strip_id) auto
  obtain c cs where z: "?z = c # cs" using ne by (cases ?z) auto
  have c: "is_digit c" using d z by simp
  then have "c \<noteq> CHR ''-''" "c \<noteq> CHR ''+''" by (auto simp: is_digit_def)
  moreover have "parse_nat (c # cs) = Some (nat i)" using parse_nat_zfill[of 56 "nat i"] z by simp
  ultimately show ?thesis using False s z
    by (simp add: py_int_def format_056d_def)
qed

lemma length_digits_of: "0 < k \<Longrightarrow> n < 10 ^ k \<Longrightarrow> length (digits_of n) \<le> k"
proof (induction n arbitrary: k rule: digits_of.induct)
  case (1 n)
  show ?case
  proof (cases "n < 10")
    case True
    with 1 show ?thesis by (subst digits_of.simps) simp
  next
    case False
    then have "k \<noteq> 1" using 1(3) by auto
    then obtain k' where k: "k = Suc k'" "0 < k'" using 1(2) by (cases k) auto
    then have "n div 10 < 10 ^ k'" using 1(3) by (simp add: less_mult_imp_div_less)
    with 1(1)[OF False k(2)] have "length (digits_of (n div 10)) \<le> k'" .
    with False k show ?thesis by (subst digits_of.simps) simp
  qed
qed

lemma length_zfill: "length s \<le> w \<Longrightarrow> length (zfill w s) = w"
  by (simp add: zfill_def)

lemma length_format_056d: "0 \<le> i \<Longrightarrow> i < 10 ^ 56 \<Longrightarrow> length (format_056d i) = 56"
proof -
  assume a: "0 \<le> i" "i < 10 ^ 56"
  then have "nat i < 10 ^ 56" by (simp add: nat_less_iff)
  then have "length (digits_of (nat i)) \<le> 56" by (intro length_digits_of) simp_all
  with a show ?thesis by (simp add: format_056d_def length_zfill)
qed

lemma digits_format_056d: "0 \<le> i \<Longrightarrow> list_all is_digit (format_056d i)"
  by (simp add: format_056d_def zfill_digits digits_of_digits)

section \<open>Windows of get_log_events\<close>

lemma py_slice_nonneg:
  "0 \<le> a \<Longrightarrow> 0 \<le> b \<Longrightarrow> py_slice xs a b = take (nat b - nat a) (drop (nat a) xs)"
  by (auto simp: py_slice_def slice_bound_def Let_def min_def)

lemma nat_window: "0 \<le> s \<Longrightarrow> nat (s + l) - nat s = nat l"
  by arith

lemma fst_clamp_start_forward:
  assumes "0 \<le> s"
  shows "fst (clamp_start evs s (s + (limit - 1)) (len evs - 1))
       = map to_response_dict (take (nat limit) (drop (nat s) evs))"
  using assms
  by (auto simp: clamp_start_def clamp_end_def page_result_def py_slice_nonneg len_def nat_window)

lemma take_drop_window:
  "take (b - a) (drop a xs) = drop a (take b xs)"
  by (simp add: drop_take)

lemma fst_clamp_start_backward:
  "fst (clamp_start evs (e - (limit - 1)) e (len evs - 1))
     = map to_response_dict (drop (nat (e + 1 - limit)) (take (nat (e + 1)) evs))"
proof -
  have eq: "e - (limit - 1) = e + 1 - limit" by simp
  show ?thesis
    unfolding eq
    by (auto simp: clamp_start_def clamp_end_def page_result_def py_slice_nonneg len_def
        take_drop_window)
qed

lemma forward_token_clamp_start:
  assumes "0 \<le> s" "1 \<le> limit"
  shows "snd (snd (clamp_start evs s (s + (limit - 1)) (len evs - 1)))
       = ''f/'' @ format_056d (min (len evs - 1) (s + (limit - 1)))"
  using assms
  by (auto simp: clamp_start_def clamp_end_def page_result_def min_def
        intro!: arg_cong[where f = format_056d])

lemma token_forward:
  "get_index_and_direction_from_token (Some (''f/'' @ format_056d i)) = Inr (Some (CHR ''f''), i)"
  by (simp add: get_index_and_direction_from_token_def py_int_format_056d)

lemma token_backward:
  "get_index_and_direction_from_token (Some (''b/'' @ format_056d i)) = Inr (Some (CHR ''b''), i)"
  by (simp add: get_index_and_direction_from_token_def py_int_format_056d)

lemma get_log_events_no_token_head:
  "get_log_events s a b limit None True
     = Inr (clamp_start (sorted_events s a b) 0 (0 + (limit - 1)) (len (sorted_events s a b) - 1))"
  by (simp add: get_log_events_def get_index_and_direction_from_token_def window_indices_def Let_def)

lemma get_log_events_no_token_tail:
  "get_log_events s a b limit None False
     = Inr (clamp_start (sorted_events s a b) (len (sorted_events s a b) - 1 - (limit - 1))
              (len (sorted_events s a b) - 1) (len (sorted_events s a b) - 1))"
  by (simp add: get_log_events_def get_index_and_direction_from_token_def window_indices_def Let_def)

lemma get_log_events_forward:
  "get_log_events s a b limit (Some (''f/'' @ format_056d i)) sfh
     = Inr (clamp_start (sorted_events s a b) (i + 1) (i + 1 + (limit - 1)) (len (sorted_events s a b) - 1))"
  by (simp only: get_log_events_def token_forward window_indices_def Let_def)
     simp

lemma get_log_events_backward:
  "get_log_events s a b limit (Some (''b/'' @ format_056d i)) sfh
     = Inr (clamp_start (sorted_events s a b) (i - 1 - (limit - 1)) (i - 1) (len (sorted_events s a b) - 1))"
  by (simp only: get_log_events_def token_backward window_indices_def Let_def)
     simp

lemma forward_pages_Suc:
  "get_log_events s a b limit tok sfh = Inr r \<Longrightarrow>
   forward_pages (Suc k) s a b limit tok sfh
     = fst r # forward_pages k s a b limit (Some (snd (snd r))) sfh"
  by (cases r) simp

lemma forward_pages_from_token:
  assumes "1 \<le> limit"
  shows "- 1 \<le> i \<Longrightarrow> i \<le> len (sorted_events s a b) - 1 \<Longrightarrow>
     forward_pages k s a b limit (Some (''f/'' @ format_056d i)) sfh
       = map (\<lambda>j. map to_response_dict
                (take (nat limit) (drop (nat (i + 1) + j * nat limit) (sorted_events s a b))))
           [0..<k]"
proof (induction k arbitrary: i)
  case 0
  show ?case by simp
next
  case (Suc k)
  let ?evs = "sorted_events s a b"
  let ?final = "len ?evs - 1"
  let ?i' = "min ?final (i + 1 + (limit - 1))"
  let ?r = "clamp_start ?evs (i + 1) (i + 1 + (limit - 1)) ?final"
  have s0: "0 \<le> i + 1" using Suc.prems by simp
  have page: "fst ?r = map to_response_dict (take (nat limit) (drop (nat (i + 1)) ?evs))"
    by (rule fst_clamp_start_forward[OF s0])
  have tok: "snd (snd ?r) = ''f/'' @ format_056d ?i'"
    by (rule forward_token_clamp_start[OF s0 assms])
  have bounds: "- 1 \<le> ?i'" "?i' \<le> ?final"
    using Suc.prems assms by (auto simp: len_def)
  have rest: "forward_pages k s a b limit (Some (''f/'' @ format_056d ?i')) sfh
      = map (\<lambda>j. map to_response_dict
                (take (nat limit) (drop (nat (?i' + 1) + j * nat limit) ?evs))) [0..<k]"
    by (rule Suc.IH[OF bounds])
  have shift: "drop (nat (?i' + 1) + j * nat limit) ?evs
             = drop (nat (i + 1) + Suc j * nat limit) ?evs" for j
  proof (cases "i + 1 + (limit - 1) \<le> ?final")
    case True
    then have "?i' = i + 1 + (limit - 1)" by simp
    then have "nat (?i' + 1) = nat (i + 1) + nat limit"
      using s0 assms by arith
    then have "nat (?i' + 1) + j * nat limit = nat (i + 1) + Suc j * nat limit"
      by simp
    then show ?thesis by (simp only:)
  next
    case False
    then have a: "length ?evs \<le> nat (?i' + 1) + j * nat limit"
      by (simp add: min_def len_def)
    from False have b: "length ?evs \<le> nat (i + 1) + Suc j * nat limit"
      using s0 assms by (simp add: len_def)
    show ?thesis using a b by simp
  qed
  have "forward_pages (Suc k) s a b limit (Some (''f/'' @ format_056d i)) sfh
      = fst ?r # forward_pages k s a b limit (Some (snd (snd ?r))) sfh"
    by (rule forward_pages_Suc[OF get_log_events_forward])
  also have "\<dots> = map to_response_dict (take (nat limit) (drop (nat (i + 1)) ?evs))
       # map (\<lambda>j. map to_response_dict
                (take (nat limit) (drop (nat (i + 1) + Suc j * nat limit) ?evs))) [0..<k]"
    unfolding page tok rest shift ..
  also have "\<dots> = map (\<lambda>j. map to_response_dict
                (take (nat limit) (drop (nat (i + 1) + j * nat limit) ?evs))) [0..<Suc k]"
    by (simp add: map_upt_Suc del: upt_Suc)
  finally show ?case .
qed

lemma forward_pages_from_head:
  assumes "1 \<le> limit"
  shows "forward_pages k s a b limit None True
       = map (\<lambda>j. map to_response_dict
                (take (nat limit) (drop (j * nat limit) (sorted_events s a b))))
           [0..<k]"
proof (cases k)
  case 0
  then show ?thesis by simp
next
  case (Suc k')
  let ?evs = "sorted_events s a b"
  let ?final = "len ?evs - 1"
  let ?i' = "min ?final (0 + (limit - 1))"
  let ?r = "clamp_start ?evs 0 (0 + (limit - 1)) ?final"
  have page: "fst ?r = map to_response_dict (take (nat limit) (drop (nat 0) ?evs))"
    by (rule fst_clamp_start_forward) simp
  have tok: "snd (snd ?r) = ''f/'' @ format_056d ?i'"
    by (rule forward_token_clamp_start[OF _ assms]) simp
  have bounds: "- 1 \<le> ?i'" "?i' \<le> ?final"
    using assms by (auto simp: len_def)
  have rest: "forward_pages k' s a b limit (Some (''f/'' @ format_056d ?i')) True
      = map (\<lambda>j. map to_response_dict
                (take (nat limit) (drop (nat (?i' + 1) + j * nat limit) ?evs))) [0..<k']"
    by (rule forward_pages_from_token[OF assms bounds])
  have shift: "drop (nat (?i' + 1) + j * nat limit) ?evs = drop (Suc j * nat limit) ?evs" for j
  proof (cases "limit - 1 \<le> ?final")
    case True
    then have "?i' = 0 + (limit - 1)" by simp
    then have "nat (?i' + 1) = nat limit" using assms by arith
    then have "nat (?i' + 1) + j * nat limit = Suc j * nat limit"
      by simp
    then show ?thesis by (simp only:)
  next
    case False
    then have a: "length ?evs \<le> nat (?i' + 1) + j * nat limit"
      by (simp add: min_def len_def)
    from False have b: "length ?evs \<le> Suc j * nat limit"
      using assms by (simp add: len_def)
    show ?thesis using a b by simp
  qed
  have "forward_pages (Suc k') s a b limit None True
      = fst ?r # forward_pages k' s a b limit (Some (snd (snd ?r))) True"
    by (rule forward_pages_Suc[OF get_log_events_no_token_head])
  also have "\<dots> = map to_response_dict (take (nat limit) (drop 0 ?evs))
       # map (\<lambda>j. map to_response_dict
                (take (nat limit) (drop (Suc j * nat limit) ?evs))) [0..<k']"
    unfolding page tok rest shift by simp
  also have "\<dots> = map (\<lambda>j. map to_response_dict
                (take (nat limit) (drop (j * nat limit) ?evs))) [0..<Suc k']"
    by (simp add: map_upt_Suc del: upt_Suc)
  finally show ?thesis using Suc by simp
qed

lemma get_log_events_window:
  assumes "get_index_and_direction_from_token tok = Inr (d, i)"
    and "window_indices d i (limit - 1) (len (sorted_events s a b) - 1) sfh = Inr (st, en)"
  shows "get_log_events s a b limit tok sfh
       = Inr (clamp_start (sorted_events s a b) st en (len (sorted_events s a b) - 1))"
  using assms by (simp add: get_log_events_def Let_def)

lemma window_indices_length:
  "window_indices d i li fi sfh = Inr (st, en) \<Longrightarrow> en = st + li"
  by (auto simp: window_indices_def split: option.splits if_splits)

lemma clamp_start_past_end:
  "len evs - 1 < st \<Longrightarrow>
   clamp_start evs st en (len evs - 1)
     = ([], ''b/'' @ format_056d (len evs - 1), ''f/'' @ format_056d (len evs - 1))"
  by (simp add: clamp_start_def len_def)

lemma clamp_start_before_start:
  "st \<le> en \<Longrightarrow> en < 0 \<Longrightarrow>
   clamp_start evs st en (len evs - 1) = ([], ''b/'' @ format_056d 0, ''f/'' @ format_056d 0)"
  by (simp add: clamp_start_def clamp_end_def len_def)

lemma py_int_Nil: "py_int [] = None"
  by (simp add: py_int_def strip_def)

lemma get_log_events_error_iff:
  "get_log_events s a b limit tok sfh = Inl e
     \<longleftrightarrow> e = invalid_token
       \<and> (\<exists>t. tok = Some t
            \<and> (py_int (drop 2 t) = None \<or> (t \<noteq> [] \<and> hd t \<noteq> CHR ''f'' \<and> hd t \<noteq> CHR ''b'')))"
  by (cases tok)
     (auto simp: get_log_events_def get_index_and_direction_from_token_def window_indices_def
        Let_def py_int_Nil split: option.splits list.splits sum.splits if_splits)

lemma page_result_tokens:
  assumes "0 \<le> i" "i \<le> len evs - 1 \<or> i = 0" "- 1 \<le> j" "j \<le> len evs - 1"
    and "page_result evs i j = (page, bt, ft)"
  shows "bt = ''b/'' @ format_056d i \<and> ft = ''f/'' @ format_056d j
       \<and> (page \<noteq> [] \<longrightarrow> i \<le> j
            \<and> page = map to_response_dict (take (nat (j - i + 1)) (drop (nat i) evs))
            \<and> len page = j - i + 1)"
proof -
  have sl: "py_slice evs i (j + 1) = take (nat (j + 1) - nat i) (drop (nat i) evs)"
    using assms(1,3) by (intro py_slice_nonneg) simp_all
  have p: "page = map to_response_dict (take (nat (j + 1) - nat i) (drop (nat i) evs))"
    and b: "bt = ''b/'' @ format_056d i" and f: "ft = ''f/'' @ format_056d j"
    using assms(5) by (simp_all add: page_result_def sl)
  {
    assume ne: "page \<noteq> []"
    then have lt: "nat i < nat (j + 1)" using p by (cases "nat i < nat (j + 1)") simp_all
    then have ij: "i \<le> j" using assms(1) by simp
    have k: "nat (j + 1) - nat i = nat (j - i + 1)" using assms(1) ij by simp
    have "length page = min (length evs - nat i) (nat (j - i + 1))"
      using p k by simp
    also have "\<dots> = nat (j - i + 1)"
      using assms(1,4) ij by (simp add: len_def min_def) arith
    finally have "len page = j - i + 1" using ij by (simp add: len_def)
    with ij p k have "i \<le> j
            \<and> page = map to_response_dict (take (nat (j - i + 1)) (drop (nat i) evs))
            \<and> len page = j - i + 1" by simp
  }
  with b f show ?thesis by blast
qed

lemma clamp_start_tokens:
  assumes "clamp_start evs st en (len evs - 1) = (page, bt, ft)"
  shows "\<exists>i j. bt = ''b/'' @ format_056d i \<and> ft = ''f/'' @ format_056d j
       \<and> - 1 \<le> i \<and> - 1 \<le> j \<and> i \<le> max 0 (len evs - 1) \<and> j \<le> max 0 (len evs - 1)
       \<and> (page \<noteq> [] \<longrightarrow> 0 \<le> i \<and> i \<le> j \<and> j \<le> len evs - 1
            \<and> page = map to_response_dict (take (nat (j - i + 1)) (drop (nat i) evs))
            \<and> len page = j - i + 1)"
proof -
  let ?final = "len evs - 1"
  have fin: "- 1 \<le> ?final" by (simp add: len_def)
  consider (past) "\<not> st < 0" "?final < st"
    | (neg) "\<not> (\<not> st < 0 \<and> ?final < st)" "\<not> ?final < en" "en < 0"
    | (cut) "\<not> (\<not> st < 0 \<and> ?final < st)" "?final < en"
    | (mid) "\<not> (\<not> st < 0 \<and> ?final < st)" "\<not> ?final < en" "\<not> en < 0"
    by blast
  then show ?thesis
  proof cases
    case past
    then have "page = []" "bt = ''b/'' @ format_056d ?final" "ft = ''f/'' @ format_056d ?final"
      using assms by (simp_all add: clamp_start_def)
    then show ?thesis using fin by (intro exI[of _ ?final]) simp
  next
    case neg
    then have "page = []" "bt = ''b/'' @ format_056d 0" "ft = ''f/'' @ format_056d 0"
      using assms by (auto simp: clamp_start_def clamp_end_def split: if_splits)
    then show ?thesis by (intro exI[of _ 0]) simp
  next
    case cut
    let ?i = "max 0 st"
    have r: "page_result evs ?i ?final = (page, bt, ft)"
      using assms cut by (auto simp: clamp_start_def clamp_end_def max_def split: if_splits)
    have i: "0 \<le> ?i" "?i \<le> ?final \<or> ?i = 0" using cut by (auto simp: max_def)
    from page_result_tokens[OF i fin _ r]
    show ?thesis using i fin by (intro exI[of _ ?i] exI[of _ ?final]) (auto simp: max_def)
  next
    case mid
    let ?i = "max 0 st"
    have r: "page_result evs ?i en = (page, bt, ft)"
      using assms mid by (auto simp: clamp_start_def clamp_end_def max_def split: if_splits)
    have i: "0 \<le> ?i" "?i \<le> ?final \<or> ?i = 0" using mid by (auto simp: max_def)
    have j: "- 1 \<le> en" "en \<le> ?final" using mid by simp_all
    from page_result_tokens[OF i j r]
    show ?thesis using i j by (intro exI[of _ ?i] exI[of _ en]) (auto simp: max_def)
  qed
qed

lemma format_056d_minus_one:
  "format_056d (- 1) = ''-0000000000000000000000000000000000000000000000000000001''"
  by code_simp

section \<open>Ingestion, groups and the registry\<close>

lemma put_log_events_stream:
  "fst (snd (put_log_events now eid batch s))
     = s\<lparr> lastIngestionTime := Some now,
          storedBytes := storedBytes s + sum_list (map (\<lambda>e. len (in_message e)) batch),
          events := events s @ new_events eid now batch,
          uploadSequenceToken := uploadSequenceToken s + 1 \<rparr>"
  by (simp add: put_log_events_def Let_def)

lemma put_log_events_token:
  "fst (put_log_events now eid batch s) = format_056d (uploadSequenceToken s + 1)"
  by (simp add: put_log_events_def Let_def)

lemma put_all_Cons:
  "put_all ((now, batch) # calls) eid s
     = (fst (put_log_events now eid batch s)
          # fst (put_all calls (snd (snd (put_log_events now eid batch s)))
                  (fst (snd (put_log_events now eid batch s)))),
        snd (put_all calls (snd (snd (put_log_events now eid batch s)))
                  (fst (snd (put_log_events now eid batch s)))))"
  by (simp split: prod.splits)

lemma put_all_storedBytes:
  "storedBytes (fst (snd (put_all calls eid s)))
     = storedBytes s + sum_list (map (\<lambda>e. len (in_message e)) (concat (map snd calls)))"
proof (induction calls arbitrary: eid s)
  case Nil
  show ?case by simp
next
  case (Cons c calls)
  obtain now batch where c: "c = (now, batch)" by (cases c)
  show ?case
    unfolding c put_all_Cons
    by (simp add: Cons.IH put_log_events_stream)
qed

lemma put_all_counter:
  "uploadSequenceToken (fst (snd (put_all calls eid s))) = uploadSequenceToken s + len calls"
proof (induction calls arbitrary: eid s)
  case Nil
  show ?case by (simp add: len_def)
next
  case (Cons c calls)
  obtain now batch where c: "c = (now, batch)" by (cases c)
  show ?case
    unfolding c put_all_Cons
    by (simp add: Cons.IH put_log_events_stream len_def)
qed

lemma put_all_tokens:
  "fst (put_all calls eid s)
     = map (\<lambda>k. format_056d (uploadSequenceToken s + int k)) [1..<Suc (length calls)]"
proof (induction calls arbitrary: eid s)
  case Nil
  show ?case by simp
next
  case (Cons c calls)
  obtain now batch where c: "c = (now, batch)" by (cases c)
  have "map (\<lambda>k. format_056d (uploadSequenceToken s + int k)) [1..<Suc (Suc (length calls))]
      = format_056d (uploadSequenceToken s + 1)
        # map (\<lambda>k. format_056d (uploadSequenceToken s + int k)) (map Suc [1..<Suc (length calls)])"
    by (simp only: map_Suc_upt) (simp add: upt_conv_Cons del: upt_Suc)
  also have "\<dots> = format_056d (uploadSequenceToken s + 1)
        # map (\<lambda>k. format_056d (uploadSequenceToken s + 1 + int k)) [1..<Suc (length calls)]"
    by (simp add: o_def add.assoc del: upt_Suc)
  finally show ?case
    unfolding c put_all_Cons
    by (simp add: Cons.IH put_log_events_stream put_log_events_token del: upt_Suc)
qed

lemma utf8_len_ascii: "list_all (\<lambda>cp. cp < 128) m \<Longrightarrow> utf8_len m = len m"
  by (induction m) (auto simp: utf8_len_def len_def utf8_size_def)

lemma sum_utf8_len_ascii:
  "list_all (\<lambda>e. list_all (\<lambda>cp. cp < 128) (in_message e)) es \<Longrightarrow>
   sum_list (map (\<lambda>e. utf8_len (in_message e)) es) = sum_list (map (\<lambda>e. len (in_message e)) es)"
  by (induction es) (simp_all add: utf8_len_ascii)

lemma sum_len_nonneg: "0 \<le> sum_list (map (\<lambda>e. len (in_message e)) es)"
  by (induction es) (simp_all add: len_def)

lemma create_log_group_fresh:
  "nm \<notin> set (map fst (groups b)) \<Longrightarrow>
   create_log_group now nm tg b
     = Inr (b\<lparr> groups := AList.update nm (LogGroup now (region_name b) nm tg) (groups b) \<rparr>)"
  by (simp add: create_log_group_def)

lemma create_log_group_present:
  "nm \<in> set (map fst (groups b)) \<Longrightarrow>
   create_log_group now nm tg b = Inl ResourceAlreadyExistsException"
  by (simp add: create_log_group_def)

lemma create_log_group_Inr:
  assumes "create_log_group now nm tg b = Inr b'"
  shows "b' = b\<lparr> groups := AList.update nm (LogGroup now (region_name b) nm tg) (groups b) \<rparr>"
proof (cases "nm \<in> set (map fst (groups b))")
  case True
  from create_log_group_present[OF True] assms show ?thesis by simp
next
  case False
  from create_log_group_fresh[OF False] assms show ?thesis by simp
qed

lemma update_has_key: "k \<in> set (map fst (AList.update k v al))"
  by (simp add: dom_update)

lemma create_log_group_keys:
  assumes "create_log_group now nm tg b = Inr b'"
  shows "nm \<in> set (map fst (groups b'))"
  unfolding create_log_group_Inr[OF assms] using update_has_key[of nm] by simp

lemma delete_log_group_Inr:
  assumes "delete_log_group nm b = Inr b'"
  shows "b' = b\<lparr> groups := AList.delete nm (groups b) \<rparr>"
  using assms by (cases "nm \<in> set (map fst (groups b))") (simp_all add: delete_log_group_def)

lemma delete_lacks_key: "k \<notin> set (map fst (AList.delete k al))"
  using delete_notin_dom[of k al] by simp

lemma collect_events_pattern:
  assumes "p \<noteq> []" "strs \<noteq> []"
  shows "collect_events strs a b (Some p) acc
       = Inl (NotImplementedError ''filter_pattern is not yet implemented'')"
  using assms by (cases strs) (simp_all add: filter_log_events_def)

lemma filter_pattern_rejected_with_streams:
  assumes "p \<noteq> []" "selected_streams g names \<noteq> []"
  shows "LogGroup_filter_log_events g names a b limit tok (Some p) interleaved
       = Inl (NotImplementedError ''filter_pattern is not yet implemented'')"
  using assms by (simp add: LogGroup_filter_log_events_def Let_def collect_events_pattern)

lemma filter_log_events_no_pattern:
  "fp = None \<or> fp = Some [] \<Longrightarrow> filter_log_events s a b fp = Inr (stream_part s a b)"
  by (auto simp: filter_log_events_def stream_part_def sorted_events_def)

lemma collect_events_no_pattern:
  "fp = None \<or> fp = Some [] \<Longrightarrow>
   collect_events strs a b fp acc = Inr (acc @ concat (map (\<lambda>s. stream_part s a b) strs))"
  by (induction strs arbitrary: acc) (simp_all add: filter_log_events_no_pattern)

lemma LogGroup_filter_log_events_no_pattern:
  assumes "fp = None \<or> fp = Some []"
  shows "LogGroup_filter_log_events g names a b limit tok fp interleaved
       = Inr (py_slice (if interleaved then sort_key fd_timestamp (concatenated_parts g names a b)
                        else concatenated_parts g names a b)
                (case tok of None \<Rightarrow> 0 | Some t \<Rightarrow> t)
                ((case tok of None \<Rightarrow> 0 | Some t \<Rightarrow> t) + limit),
              (if (case tok of None \<Rightarrow> 0 | Some t \<Rightarrow> t) + limit
                    \<ge> len (concatenated_parts g names a b)
               then None else Some ((case tok of None \<Rightarrow> 0 | Some t \<Rightarrow> t) + limit)),
              map (\<lambda>stream. (logStreamName stream, True)) (selected_streams g names))"
  by (simp add: LogGroup_filter_log_events_def Let_def collect_events_no_pattern[OF assms]
        concatenated_parts_def len_def)

lemma sorted_py_slice:
  "sorted (map f xs) \<Longrightarrow> sorted (map f (py_slice xs i j))"
  by (simp add: py_slice_def Let_def take_map[symmetric] drop_map[symmetric])

lemma py_slice_whole: "len xs \<le> limit \<Longrightarrow> py_slice xs 0 (0 + limit) = xs"
  by (simp add: py_slice_def slice_bound_def Let_def len_def)

lemma stream_part_sorted: "sorted (map fd_timestamp (stream_part s a b))"
  by (simp add: stream_part_def sorted_events_def o_def to_filter_dict_def)

lemma LogGroup_filter_log_events_returns:
  assumes "LogGroup_filter_log_events g names a b limit tok fp interleaved = Inr r"
  shows "r = (py_slice (if interleaved then sort_key fd_timestamp (concatenated_parts g names a b)
                        else concatenated_parts g names a b)
                (case tok of None \<Rightarrow> 0 | Some t \<Rightarrow> t)
                ((case tok of None \<Rightarrow> 0 | Some t \<Rightarrow> t) + limit),
              (if (case tok of None \<Rightarrow> 0 | Some t \<Rightarrow> t) + limit
                    \<ge> len (concatenated_parts g names a b)
               then None else Some ((case tok of None \<Rightarrow> 0 | Some t \<Rightarrow> t) + limit)),
              map (\<lambda>stream. (logStreamName stream, True)) (selected_streams g names))"
proof (cases "fp = None \<or> fp = Some []")
  case True
  from LogGroup_filter_log_events_no_pattern[OF True] assms show ?thesis by simp
next
  case False
  then obtain p where p: "fp = Some p" "p \<noteq> []" by (cases fp) auto
  show ?thesis
  proof (cases "selected_streams g names = []")
    case True
    then have "concatenated_parts g names a b = []" by (simp add: concatenated_parts_def)
    then show ?thesis
      using assms True
      by (cases interleaved) (auto simp: LogGroup_filter_log_events_def Let_def len_def)
  next
    case False
    from filter_pattern_rejected_with_streams[OF p(2) False] p(1) assms
    show ?thesis by simp
  qed
qed

section \<open>Claims\<close>

text \<open>
  C1. With no token, \<open>get_log_events\<close> takes a window of \<open>limit\<close> indices over the
  time-filtered events in ascending order of timestamp: from index 0 when
  \<open>start_from_head\<close> is set, ending at the last index otherwise; the page is the part
  of the window inside the list. Feeding the forward token back with the same limit
  gives the pages one after the other: call number \<open>j\<close> returns the events from
  \<open>j * limit\<close> on, at most \<open>limit\<close> of them.
\<close>

theorem get_log_events_window_paging:
  "sorted (map timestamp (sorted_events s a b))
   \<and> mset (sorted_events s a b) = mset (filter (filter_func a b) (events s))
   \<and> window_indices None index (limit - 1) final_index True = Inr (0, limit - 1)
   \<and> window_indices None index (limit - 1) final_index False
         = Inr (final_index - limit + 1, final_index)
   \<and> (\<exists>bt ft. get_log_events s a b limit None True
         = Inr (map to_response_dict (take (nat limit) (sorted_events s a b)), bt, ft))
   \<and> (\<exists>bt ft. get_log_events s a b limit None False
         = Inr (map to_response_dict
                  (drop (length (sorted_events s a b) - nat limit) (sorted_events s a b)), bt, ft))
   \<and> (1 \<le> limit \<longrightarrow>
        forward_pages k s a b limit None True
          = map (\<lambda>j. map to_response_dict
                   (take (nat limit) (drop (j * nat limit) (sorted_events s a b)))) [0..<k])"
proof -
  let ?evs = "sorted_events s a b"
  have srt: "sorted (map timestamp ?evs)"
    by (simp add: sorted_events_def)
  have ms: "mset ?evs = mset (filter (filter_func a b) (events s))"
    by (simp add: sorted_events_def)
  have w1: "window_indices None index (limit - 1) final_index True = Inr (0, limit - 1)"
    by (simp add: window_indices_def)
  have w2: "window_indices None index (limit - 1) final_index False
      = Inr (final_index - limit + 1, final_index)"
    by (simp add: window_indices_def)
  have "fst (clamp_start ?evs 0 (0 + (limit - 1)) (len ?evs - 1))
      = map to_response_dict (take (nat limit) (drop (nat 0) ?evs))"
    by (rule fst_clamp_start_forward) simp
  then have hd: "\<exists>bt ft. get_log_events s a b limit None True
      = Inr (map to_response_dict (take (nat limit) ?evs), bt, ft)"
    by (cases "clamp_start ?evs 0 (0 + (limit - 1)) (len ?evs - 1)")
       (simp add: get_log_events_no_token_head)
  have "fst (clamp_start ?evs (len ?evs - 1 - (limit - 1)) (len ?evs - 1) (len ?evs - 1))
      = map to_response_dict (drop (nat (len ?evs - 1 + 1 - limit)) (take (nat (len ?evs - 1 + 1)) ?evs))"
    by (rule fst_clamp_start_backward)
  moreover have "drop (nat (len ?evs - 1 + 1 - limit)) ?evs = drop (length ?evs - nat limit) ?evs"
  proof (cases "0 \<le> limit")
    case True
    then have "nat (len ?evs - 1 + 1 - limit) = length ?evs - nat limit"
      by (simp add: len_def)
    then show ?thesis by (simp only:)
  next
    case False
    then show ?thesis by (simp add: len_def)
  qed
  ultimately have "fst (clamp_start ?evs (len ?evs - 1 - (limit - 1)) (len ?evs - 1) (len ?evs - 1))
      = map to_response_dict (drop (length ?evs - nat limit) ?evs)"
    by (simp add: len_def)
  then have tl: "\<exists>bt ft. get_log_events s a b limit None False
      = Inr (map to_response_dict (drop (length ?evs - nat limit) ?evs), bt, ft)"
    by (cases "clamp_start ?evs (len ?evs - 1 - (limit - 1)) (len ?evs - 1) (len ?evs - 1)")
       (simp add: get_log_events_no_token_tail)
  have fw: "1 \<le> limit \<longrightarrow>
        forward_pages k s a b limit None True
          = map (\<lambda>j. map to_response_dict
                   (take (nat limit) (drop (j * nat limit) ?evs))) [0..<k]"
    by (rule impI) (rule forward_pages_from_head)
  from srt ms w1 w2 hd tl fw show ?thesis by (intro conjI)
qed

theorem get_log_events_window_paging_witness:
  "(1::int) \<le> 2
   \<and> map (map rd_timestamp) (forward_pages 4 example_stream None None 2 None True)
       = [[10, 20], [30, 40], [50], []]"
proof -
  have "forward_pages 4 example_stream None None 2 None True
      = map (\<lambda>j. map to_response_dict
               (take (nat 2) (drop (j * nat 2) (sorted_events example_stream None None)))) [0..<4]"
    using get_log_events_window_paging [of example_stream None None 0 2 0 4] by simp
  moreover have "map (map rd_timestamp) (map (\<lambda>j. map to_response_dict
               (take (nat 2) (drop (j * nat 2) (sorted_events example_stream None None)))) [0..<4])
      = [[10, 20], [30, 40], [50], []]"
    by code_simp
  ultimately show ?thesis by simp
qed

text \<open>
  C2 (as amended). Whenever the start index before clamping lies past the last index,
  \<open>get_log_events\<close> returns an empty page with both tokens at the last index, and the
  call with the returned forward token returns the same again. For a limit of at least
  1, whenever the end index before clamping is negative, it returns an empty page with
  both tokens at index 0, and the call with the returned backward token returns the
  same again.
\<close>

theorem boundary_pages:
  "(get_index_and_direction_from_token tok1 = Inr (d1, i1)
      \<and> window_indices d1 i1 (limit - 1) (len (sorted_events s a b) - 1) sfh1 = Inr (st1, en1)
      \<and> len (sorted_events s a b) - 1 < st1
    \<longrightarrow> get_log_events s a b limit tok1 sfh1
          = Inr ([], ''b/'' @ format_056d (len (sorted_events s a b) - 1),
                     ''f/'' @ format_056d (len (sorted_events s a b) - 1))
      \<and> get_log_events s a b limit
            (Some (''f/'' @ format_056d (len (sorted_events s a b) - 1))) sfh
          = Inr ([], ''b/'' @ format_056d (len (sorted_events s a b) - 1),
                     ''f/'' @ format_056d (len (sorted_events s a b) - 1)))
   \<and> (1 \<le> limit
      \<and> get_index_and_direction_from_token tok2 = Inr (d2, i2)
      \<and> window_indices d2 i2 (limit - 1) (len (sorted_events s a b) - 1) sfh2 = Inr (st2, en2)
      \<and> en2 < 0
    \<longrightarrow> get_log_events s a b limit tok2 sfh2
          = Inr ([], ''b/'' @ format_056d 0, ''f/'' @ format_056d 0)
      \<and> get_log_events s a b limit (Some (''b/'' @ format_056d 0)) sfh
          = Inr ([], ''b/'' @ format_056d 0, ''f/'' @ format_056d 0))"
proof (intro conjI impI; elim conjE)
  let ?evs = "sorted_events s a b"
  let ?final = "len ?evs - 1"
  {
    assume t: "get_index_and_direction_from_token tok1 = Inr (d1, i1)"
      and w: "window_indices d1 i1 (limit - 1) ?final sfh1 = Inr (st1, en1)"
      and past: "?final < st1"
    show "get_log_events s a b limit tok1 sfh1
        = Inr ([], ''b/'' @ format_056d ?final, ''f/'' @ format_056d ?final)"
      by (simp only: get_log_events_window[OF t w] clamp_start_past_end[OF past])
  }
  {
    have "?final < ?final + 1" by simp
    then show "get_log_events s a b limit (Some (''f/'' @ format_056d ?final)) sfh
        = Inr ([], ''b/'' @ format_056d ?final, ''f/'' @ format_056d ?final)"
      by (simp only: get_log_events_forward clamp_start_past_end)
  }
  {
    assume l: "1 \<le> limit"
      and t: "get_index_and_direction_from_token tok2 = Inr (d2, i2)"
      and w: "window_indices d2 i2 (limit - 1) ?final sfh2 = Inr (st2, en2)"
      and neg: "en2 < 0"
    from window_indices_length[OF w] l have "st2 \<le> en2" by simp
    then show "get_log_events s a b limit tok2 sfh2
        = Inr ([], ''b/'' @ format_056d 0, ''f/'' @ format_056d 0)"
      using neg by (simp only: get_log_events_window[OF t w] clamp_start_before_start)
  }
  {
    assume l: "1 \<le> limit"
    then have "0 - 1 - (limit - 1) \<le> (0::int) - 1" "(0::int) - 1 < 0" by simp_all
    then show "get_log_events s a b limit (Some (''b/'' @ format_056d 0)) sfh
        = Inr ([], ''b/'' @ format_056d 0, ''f/'' @ format_056d 0)"
      by (simp only: get_log_events_backward clamp_start_before_start)
  }
qed

theorem boundary_pages_witness:
  "get_log_events example_stream None None 2 (Some (''f/'' @ format_056d 7)) False
     = Inr ([], ''b/'' @ format_056d 4, ''f/'' @ format_056d 4)
   \<and> get_log_events example_stream None None 2 (Some (''f/'' @ format_056d 4)) False
     = Inr ([], ''b/'' @ format_056d 4, ''f/'' @ format_056d 4)
   \<and> get_log_events example_stream None None 2 (Some (''b/'' @ format_056d (- 3))) False
     = Inr ([], ''b/'' @ format_056d 0, ''f/'' @ format_056d 0)
   \<and> get_log_events example_stream None None 2 (Some (''b/'' @ format_056d 0)) False
     = Inr ([], ''b/'' @ format_056d 0, ''f/'' @ format_056d 0)"
proof -
  have n: "len (sorted_events example_stream None None) - 1 = 4"
    by code_simp
  have t1: "get_index_and_direction_from_token (Some (''f/'' @ format_056d 7))
      = Inr (Some (CHR ''f''), 7)"
    by (rule token_forward)
  have w1: "window_indices (Some (CHR ''f'')) 7 (2 - 1)
      (len (sorted_events example_stream None None) - 1) False = Inr (8, 9)"
    by (simp add: window_indices_def)
  have t2: "get_index_and_direction_from_token (Some (''b/'' @ format_056d (- 3)))
      = Inr (Some (CHR ''b''), - 3)"
    by (rule token_backward)
  have w2: "window_indices (Some (CHR ''b'')) (- 3) (2 - 1)
      (len (sorted_events example_stream None None) - 1) False = Inr (- 5, - 4)"
    by (simp add: window_indices_def)
  show ?thesis
    using boundary_pages [of "Some (''f/'' @ format_056d 7)" "Some (CHR ''f'')" 7 2
        example_stream None None False 8 9 False
        "Some (''b/'' @ format_056d (- 3))" "Some (CHR ''b'')" "- 3" False "- 5" "- 4"]
      t1 w1 t2 w2 n
    by simp
qed

theorem boundary_pages_counterexample:
  "window_indices (Some (CHR ''b'')) (- 1) (0 - 1)
       (len (sorted_events (LogStream 0 0 ''us-east-1'' ''group'' ''stream'') None None) - 1) True
     = Inr (- 1, - 2)
   \<and> get_log_events (LogStream 0 0 ''us-east-1'' ''group'' ''stream'') None None 0
       (Some (''b/'' @ format_056d (- 1))) True
     = Inr ([], ''b/'' @ format_056d 0, ''f/'' @ format_056d 0)
   \<and> get_log_events (LogStream 0 0 ''us-east-1'' ''group'' ''stream'') None None 0
       (Some (''b/'' @ format_056d 0)) True
     = Inr ([], ''b/'' @ format_056d (- 1), ''f/'' @ format_056d (- 1))
   \<and> get_log_events (LogStream 0 0 ''us-east-1'' ''group'' ''stream'') None None 0
       (Some (''f/'' @ format_056d 0)) True
     = Inr ([], ''b/'' @ format_056d (- 1), ''f/'' @ format_056d (- 1))
   \<and> format_056d (- 1) \<noteq> format_056d 0"
  by code_simp

text \<open>
  C3. \<open>get_log_events\<close> raises \<open>InvalidParameterException\<close> with the message
  "The specified nextToken is invalid." exactly when a token is given whose suffix after
  the first two characters is not an integer or whose first character is neither
  \<open>f\<close> nor \<open>b\<close>, and it raises nothing else. With direction \<open>f\<close> the window starts at
  index + 1, with direction \<open>b\<close> it ends at index - 1.
\<close>

theorem invalid_token_and_direction:
  "(get_log_events s a b limit tok sfh
        = Inl (InvalidParameterException ''The specified nextToken is invalid.'')
      \<longleftrightarrow> (\<exists>t. tok = Some t
            \<and> (py_int (drop 2 t) = None
                 \<or> (t \<noteq> [] \<and> hd t \<noteq> CHR ''f'' \<and> hd t \<noteq> CHR ''b''))))
   \<and> (get_log_events s a b limit tok sfh = Inl e
        \<longrightarrow> e = InvalidParameterException ''The specified nextToken is invalid.'')
   \<and> (py_int rest = Some i \<longrightarrow>
        get_index_and_direction_from_token (Some (CHR ''f'' # c # rest)) = Inr (Some (CHR ''f''), i)
        \<and> window_indices (Some (CHR ''f'')) i (limit - 1) final_index sfh
            = Inr (i + 1, i + 1 + (limit - 1))
        \<and> (- 1 \<le> i \<longrightarrow>
            (\<exists>bt ft. get_log_events s a b limit (Some (CHR ''f'' # c # rest)) sfh
               = Inr (map to_response_dict
                        (take (nat limit) (drop (nat (i + 1)) (sorted_events s a b))), bt, ft))))
   \<and> (py_int rest' = Some i' \<longrightarrow>
        get_index_and_direction_from_token (Some (CHR ''b'' # c' # rest')) = Inr (Some (CHR ''b''), i')
        \<and> window_indices (Some (CHR ''b'')) i' (limit - 1) final_index sfh
            = Inr (i' - 1 - (limit - 1), i' - 1)
        \<and> (\<exists>bt ft. get_log_events s a b limit (Some (CHR ''b'' # c' # rest')) sfh
               = Inr (map to_response_dict
                        (drop (nat (i' - limit)) (take (nat i') (sorted_events s a b))), bt, ft)))"
proof (intro conjI impI)
  let ?evs = "sorted_events s a b"
  let ?final = "len ?evs - 1"
  show "get_log_events s a b limit tok sfh
        = Inl (InvalidParameterException ''The specified nextToken is invalid.'')
      \<longleftrightarrow> (\<exists>t. tok = Some t
            \<and> (py_int (drop 2 t) = None
                 \<or> (t \<noteq> [] \<and> hd t \<noteq> CHR ''f'' \<and> hd t \<noteq> CHR ''b'')))"
    by (simp add: get_log_events_error_iff invalid_token_def)
  {
    assume "get_log_events s a b limit tok sfh = Inl e"
    then show "e = InvalidParameterException ''The specified nextToken is invalid.''"
      by (simp add: get_log_events_error_iff invalid_token_def)
  }
  {
    assume p: "py_int rest = Some i"
    then show t: "get_index_and_direction_from_token (Some (CHR ''f'' # c # rest))
        = Inr (Some (CHR ''f''), i)"
      by (simp add: get_index_and_direction_from_token_def)
    show "window_indices (Some (CHR ''f'')) i (limit - 1) final_index sfh
        = Inr (i + 1, i + 1 + (limit - 1))"
      by (simp add: window_indices_def)
    assume i: "- 1 \<le> i"
    have w: "window_indices (Some (CHR ''f'')) i (limit - 1) ?final sfh
        = Inr (i + 1, i + 1 + (limit - 1))"
      by (simp add: window_indices_def)
    have "fst (clamp_start ?evs (i + 1) (i + 1 + (limit - 1)) ?final)
        = map to_response_dict (take (nat limit) (drop (nat (i + 1)) ?evs))"
      by (rule fst_clamp_start_forward) (use i in simp)
    then show "\<exists>bt ft. get_log_events s a b limit (Some (CHR ''f'' # c # rest)) sfh
        = Inr (map to_response_dict (take (nat limit) (drop (nat (i + 1)) ?evs)), bt, ft)"
      unfolding get_log_events_window[OF t w]
      by (cases "clamp_start ?evs (i + 1) (i + 1 + (limit - 1)) ?final") simp
  }
  {
    assume p: "py_int rest' = Some i'"
    then show t: "get_index_and_direction_from_token (Some (CHR ''b'' # c' # rest'))
        = Inr (Some (CHR ''b''), i')"
      by (simp add: get_index_and_direction_from_token_def)
    show "window_indices (Some (CHR ''b'')) i' (limit - 1) final_index sfh
        = Inr (i' - 1 - (limit - 1), i' - 1)"
      by (simp add: window_indices_def)
    have w: "window_indices (Some (CHR ''b'')) i' (limit - 1) ?final sfh
        = Inr (i' - 1 - (limit - 1), i' - 1)"
      by (simp add: window_indices_def)
    have "fst (clamp_start ?evs (i' - 1 - (limit - 1)) (i' - 1) ?final)
        = map to_response_dict (drop (nat (i' - 1 + 1 - limit)) (take (nat (i' - 1 + 1)) ?evs))"
      by (rule fst_clamp_start_backward)
    then have "fst (clamp_start ?evs (i' - 1 - (limit - 1)) (i' - 1) ?final)
        = map to_response_dict (drop (nat (i' - limit)) (take (nat i') ?evs))"
      by simp
    then show "\<exists>bt ft. get_log_events s a b limit (Some (CHR ''b'' # c' # rest')) sfh
        = Inr (map to_response_dict (drop (nat (i' - limit)) (take (nat i') ?evs)), bt, ft)"
      unfolding get_log_events_window[OF t w]
      by (cases "clamp_start ?evs (i' - 1 - (limit - 1)) (i' - 1) ?final") simp
  }
qed

theorem invalid_token_and_direction_witness:
  "get_log_events example_stream None None 2 (Some ''x/1'') True
     = Inl (InvalidParameterException ''The specified nextToken is invalid.'')
   \<and> py_int (format_056d 1) = Some 1
   \<and> (\<exists>bt ft. get_log_events example_stream None None 2
                 (Some (CHR ''f'' # CHR ''/'' # format_056d 1)) True
         = Inr (map to_response_dict
                  (take (nat 2) (drop (nat (1 + 1)) (sorted_events example_stream None None))),
                bt, ft))
   \<and> map rd_timestamp (map to_response_dict
         (take (nat 2) (drop (nat (1 + 1)) (sorted_events example_stream None None)))) = [30, 40]
   \<and> py_int (format_056d 2) = Some 2
   \<and> (\<exists>bt ft. get_log_events example_stream None None 2
                 (Some (CHR ''b'' # CHR ''/'' # format_056d 2)) True
         = Inr (map to_response_dict
                  (drop (nat (2 - 2)) (take (nat 2) (sorted_events example_stream None None))),
                bt, ft))
   \<and> map rd_timestamp (map to_response_dict
         (drop (nat (2 - 2)) (take (nat 2) (sorted_events example_stream None None)))) = [10, 20]"
proof -
  note th = invalid_token_and_direction [where s = example_stream and a = None and b = None
      and limit = 2 and tok = "Some ''x/1''" and sfh = True
      and rest = "format_056d 1" and i = 1 and c = "CHR ''/''"
      and rest' = "format_056d 2" and i' = 2 and c' = "CHR ''/''"]
  have "py_int (drop 2 ''x/1'') = None \<or> (''x/1'' \<noteq> [] \<and> hd ''x/1'' \<noteq> CHR ''f'' \<and> hd ''x/1'' \<noteq> CHR ''b'')"
    by simp
  then have bad: "\<exists>t. Some ''x/1'' = Some t
      \<and> (py_int (drop 2 t) = None \<or> (t \<noteq> [] \<and> hd t \<noteq> CHR ''f'' \<and> hd t \<noteq> CHR ''b''))"
    by blast
  have p1: "py_int (format_056d 1) = Some 1" and p2: "py_int (format_056d 2) = Some 2"
    by (rule py_int_format_056d)+
  have m1: "- 1 \<le> (1::int)" by simp
  have v1: "map rd_timestamp (map to_response_dict
         (take (nat 2) (drop (nat (1 + 1)) (sorted_events example_stream None None)))) = [30, 40]"
    by code_simp
  have v2: "map rd_timestamp (map to_response_dict
         (drop (nat (2 - 2)) (take (nat 2) (sorted_events example_stream None None)))) = [10, 20]"
    by code_simp
  from th bad have c1: "get_log_events example_stream None None 2 (Some ''x/1'') True
     = Inl (InvalidParameterException ''The specified nextToken is invalid.'')"
    by blast
  from th p1 m1 have c2: "\<exists>bt ft. get_log_events example_stream None None 2
                 (Some (CHR ''f'' # CHR ''/'' # format_056d 1)) True
         = Inr (map to_response_dict
                  (take (nat 2) (drop (nat (1 + 1)) (sorted_events example_stream None None))),
                bt, ft)"
    by blast
  from th p2 have c3: "\<exists>bt ft. get_log_events example_stream None None 2
                 (Some (CHR ''b'' # CHR ''/'' # format_056d 2)) True
         = Inr (map to_response_dict
                  (drop (nat (2 - 2)) (take (nat 2) (sorted_events example_stream None None))),
                bt, ft)"
    by blast
  from c1 p1 c2 v1 p2 c3 v2 show ?thesis by (intro conjI)
qed

text \<open>
  C4 (as amended). Every token that \<open>get_log_events\<close> returns is the direction
  character (\<open>b\<close> for the backward, \<open>f\<close> for the forward token), one \<open>/\<close>, and an
  index between -1 and the last index (or 0) written with \<open>{:056d}\<close>: 56 decimal
  digits that read back as the index when it is between 0 and \<open>10 ^ 56 - 1\<close>, a minus
  sign and 55 digits for -1. A page that is not empty comes with the backward token of
  its first index and the forward token of its last index.
\<close>

theorem cursor_token_format:
  "(get_log_events s a b limit tok sfh = Inr (page, bt, ft) \<longrightarrow>
      (\<exists>i j. bt = CHR ''b'' # CHR ''/'' # format_056d i
           \<and> ft = CHR ''f'' # CHR ''/'' # format_056d j
           \<and> - 1 \<le> i \<and> - 1 \<le> j
           \<and> i \<le> max 0 (len (sorted_events s a b) - 1)
           \<and> j \<le> max 0 (len (sorted_events s a b) - 1)
           \<and> (page \<noteq> [] \<longrightarrow> 0 \<le> i \<and> i \<le> j \<and> j \<le> len (sorted_events s a b) - 1
                \<and> page = map to_response_dict
                           (take (nat (j - i + 1)) (drop (nat i) (sorted_events s a b)))
                \<and> len page = j - i + 1)))
   \<and> (0 \<le> k \<and> k < 10 ^ 56 \<longrightarrow>
        length (format_056d k) = 56 \<and> list_all is_digit (format_056d k)
        \<and> py_int (format_056d k) = Some k)
   \<and> format_056d (- 1) = ''-0000000000000000000000000000000000000000000000000000001''"
proof (intro conjI impI)
  assume r: "get_log_events s a b limit tok sfh = Inr (page, bt, ft)"
  let ?evs = "sorted_events s a b"
  from r obtain st en where "clamp_start ?evs st en (len ?evs - 1) = (page, bt, ft)"
    by (auto simp: get_log_events_def Let_def split: sum.splits prod.splits)
  from clamp_start_tokens[OF this]
  show "\<exists>i j. bt = CHR ''b'' # CHR ''/'' # format_056d i
           \<and> ft = CHR ''f'' # CHR ''/'' # format_056d j
           \<and> - 1 \<le> i \<and> - 1 \<le> j
           \<and> i \<le> max 0 (len ?evs - 1) \<and> j \<le> max 0 (len ?evs - 1)
           \<and> (page \<noteq> [] \<longrightarrow> 0 \<le> i \<and> i \<le> j \<and> j \<le> len ?evs - 1
                \<and> page = map to_response_dict (take (nat (j - i + 1)) (drop (nat i) ?evs))
                \<and> len page = j - i + 1)"
    by simp
next
  assume "0 \<le> k \<and> k < 10 ^ 56"
  then show "length (format_056d k) = 56"
    by (simp add: length_format_056d)
next
  assume "0 \<le> k \<and> k < 10 ^ 56"
  then show "list_all is_digit (format_056d k)"
    by (simp add: digits_format_056d)
next
  show "py_int (format_056d k) = Some k"
    by (rule py_int_format_056d)
next
  show "format_056d (- 1) = ''-0000000000000000000000000000000000000000000000000000001''"
    by (rule format_056d_minus_one)
qed

theorem cursor_token_format_witness:
  "get_log_events example_stream None None 2 None True
     = Inr (map to_response_dict (take 2 (sorted_events example_stream None None)),
            ''b/'' @ format_056d 0, ''f/'' @ format_056d 1)
   \<and> map to_response_dict (take 2 (sorted_events example_stream None None)) \<noteq> []
   \<and> (\<exists>i j. ''b/'' @ format_056d 0 = CHR ''b'' # CHR ''/'' # format_056d i
           \<and> ''f/'' @ format_056d 1 = CHR ''f'' # CHR ''/'' # format_056d j
           \<and> 0 \<le> i \<and> i \<le> j \<and> j \<le> len (sorted_events example_stream None None) - 1
           \<and> map to_response_dict (take 2 (sorted_events example_stream None None))
               = map to_response_dict
                   (take (nat (j - i + 1)) (drop (nat i) (sorted_events example_stream None None))))
   \<and> (0::int) \<le> 1 \<and> (1::int) < 10 ^ 56
   \<and> length (format_056d 1) = 56 \<and> list_all is_digit (format_056d 1)"
proof -
  let ?page = "map to_response_dict (take 2 (sorted_events example_stream None None))"
  have r: "get_log_events example_stream None None 2 None True
     = Inr (?page, ''b/'' @ format_056d 0, ''f/'' @ format_056d 1)"
    by code_simp
  have ne: "?page \<noteq> []"
    by code_simp
  have k: "(0::int) \<le> 1 \<and> (1::int) < 10 ^ 56"
    by simp
  note th = cursor_token_format [where s = example_stream and a = None and b = None
      and limit = 2 and tok = None and sfh = True and page = ?page
      and bt = "''b/'' @ format_056d 0" and ft = "''f/'' @ format_056d 1" and k = 1]
  from th r ne have c1: "\<exists>i j. ''b/'' @ format_056d 0 = CHR ''b'' # CHR ''/'' # format_056d i
           \<and> ''f/'' @ format_056d 1 = CHR ''f'' # CHR ''/'' # format_056d j
           \<and> 0 \<le> i \<and> i \<le> j \<and> j \<le> len (sorted_events example_stream None None) - 1
           \<and> ?page = map to_response_dict
                   (take (nat (j - i + 1)) (drop (nat i) (sorted_events example_stream None None)))"
    by blast
  from th k have c2: "length (format_056d 1) = 56 \<and> list_all is_digit (format_056d 1)"
    by blast
  from r ne c1 k c2 show ?thesis by (intro conjI) simp_all
qed

theorem cursor_token_format_counterexample:
  "map_sum id snd (get_log_events example_stream None None 2 None True)
     = Inr (''b/00000000000000000000000000000000000000000000000000000000'', ''f/00000000000000000000000000000000000000000000000000000001'')
   \<and> length ''b/00000000000000000000000000000000000000000000000000000000'' = 58
   \<and> map_sum id snd (get_log_events (LogStream 0 0 ''us-east-1'' ''group'' ''stream'')
        None None 2 None True)
     = Inr (''b/'' @ ''-0000000000000000000000000000000000000000000000000000001'', ''f/'' @ ''-0000000000000000000000000000000000000000000000000000001'')"
  by code_simp

text \<open>
  C5 (as amended). After any sequence of \<open>put_log_events\<close> calls, \<open>storedBytes\<close> is
  its value before plus the sum of \<open>len(message)\<close>, the number of code points, over
  all messages of all calls, however they are grouped into batches; on a new stream it
  is that sum. It equals the sum of the UTF-8 byte lengths when every message is ASCII.
  \<open>storedBytes\<close> never decreases.
\<close>

theorem stored_bytes_sum:
  "storedBytes (fst (snd (put_all calls eid s)))
     = storedBytes s + sum_list (map (\<lambda>e. len (in_message e)) (concat (map snd calls)))
   \<and> storedBytes (fst (snd (put_all calls eid (LogStream log_id now r g n))))
     = sum_list (map (\<lambda>e. len (in_message e)) (concat (map snd calls)))
   \<and> (list_all (\<lambda>e. list_all (\<lambda>cp. cp < 128) (in_message e)) (concat (map snd calls)) \<longrightarrow>
        storedBytes (fst (snd (put_all calls eid (LogStream log_id now r g n))))
          = sum_list (map (\<lambda>e. utf8_len (in_message e)) (concat (map snd calls))))
   \<and> storedBytes s \<le> storedBytes (fst (snd (put_log_events now' eid' batch s)))
   \<and> storedBytes s \<le> storedBytes (fst (snd (put_all calls eid s)))"
proof (intro conjI impI)
  show "storedBytes (fst (snd (put_all calls eid s)))
     = storedBytes s + sum_list (map (\<lambda>e. len (in_message e)) (concat (map snd calls)))"
    by (rule put_all_storedBytes)
  show new: "storedBytes (fst (snd (put_all calls eid (LogStream log_id now r g n))))
     = sum_list (map (\<lambda>e. len (in_message e)) (concat (map snd calls)))"
    by (simp add: put_all_storedBytes LogStream_def)
  show "storedBytes (fst (snd (put_all calls eid (LogStream log_id now r g n))))
          = sum_list (map (\<lambda>e. utf8_len (in_message e)) (concat (map snd calls)))"
    if "list_all (\<lambda>e. list_all (\<lambda>cp. cp < 128) (in_message e)) (concat (map snd calls))"
    using that by (simp only: new sum_utf8_len_ascii)
  show "storedBytes s \<le> storedBytes (fst (snd (put_log_events now' eid' batch s)))"
    using sum_len_nonneg[of batch] by (simp add: put_log_events_stream)
  show "storedBytes s \<le> storedBytes (fst (snd (put_all calls eid s)))"
    using sum_len_nonneg[of "concat (map snd calls)"] by (simp only: put_all_storedBytes)
qed

theorem stored_bytes_sum_witness:
  "list_all (\<lambda>e. list_all (\<lambda>cp. cp < 128) (in_message e)) (concat (map snd ascii_calls))
   \<and> storedBytes (fst (snd (put_all ascii_calls 0 (LogStream 0 0 ''us-east-1'' ''group'' ''stream''))))
       = 6
   \<and> sum_list (map (\<lambda>e. utf8_len (in_message e)) (concat (map snd ascii_calls))) = 6"
proof -
  have a: "list_all (\<lambda>e. list_all (\<lambda>cp. cp < 128) (in_message e)) (concat (map snd ascii_calls))"
    by code_simp
  have v: "sum_list (map (\<lambda>e. utf8_len (in_message e)) (concat (map snd ascii_calls))) = 6"
    by code_simp
  from stored_bytes_sum [where calls = ascii_calls and eid = 0 and log_id = 0 and now = 0
      and r = "''us-east-1''" and g = "''group''" and n = "''stream''"] a
  have "storedBytes (fst (snd (put_all ascii_calls 0 (LogStream 0 0 ''us-east-1'' ''group'' ''stream''))))
          = sum_list (map (\<lambda>e. utf8_len (in_message e)) (concat (map snd ascii_calls)))"
    by blast
  with a v show ?thesis by simp
qed

theorem stored_bytes_sum_counterexample:
  "storedBytes (fst (snd (put_all [(1000, [\<lparr> in_timestamp = 10, in_message = [233] \<rparr>])] 0
        (LogStream 0 0 ''us-east-1'' ''group'' ''stream'')))) = 1
   \<and> sum_list (map (\<lambda>e. utf8_len (in_message e))
        (concat (map snd [(1000, [\<lparr> in_timestamp = 10, in_message = [233] \<rparr>])]))) = 2"
  by code_simp

text \<open>
  C7. Each \<open>put_log_events\<close> call adds exactly 1 to \<open>uploadSequenceToken\<close> and
  returns the new value written with \<open>{:056d}\<close>; on a new stream the calls return
  1, 2, 3, ... in turn. The token of a counter below \<open>10 ^ 56\<close> is 56 decimal digits
  that read back as the counter.
\<close>

theorem upload_sequence_token:
  "uploadSequenceToken (fst (snd (put_log_events now eid batch s))) = uploadSequenceToken s + 1
   \<and> fst (put_log_events now eid batch s) = format_056d (uploadSequenceToken s + 1)
   \<and> fst (put_all calls eid' (LogStream log_id now' r g n))
       = map (\<lambda>k. format_056d (int k)) [1..<Suc (length calls)]
   \<and> uploadSequenceToken (fst (snd (put_all calls eid' s))) = uploadSequenceToken s + len calls
   \<and> (0 \<le> k \<and> k < 10 ^ 56 \<longrightarrow>
        length (format_056d k) = 56 \<and> list_all is_digit (format_056d k)
        \<and> py_int (format_056d k) = Some k)"
  by (simp add: put_log_events_stream put_log_events_token put_all_tokens put_all_counter
        LogStream_def length_format_056d digits_format_056d py_int_format_056d del: upt_Suc)

theorem upload_sequence_token_witness:
  "fst (put_all ascii_calls 0 (LogStream 0 0 ''us-east-1'' ''group'' ''stream''))
     = [format_056d 1, format_056d 2]
   \<and> uploadSequenceToken
        (fst (snd (put_all ascii_calls 0 (LogStream 0 0 ''us-east-1'' ''group'' ''stream'')))) = 2
   \<and> (0::int) \<le> 2 \<and> (2::int) < 10 ^ 56
   \<and> length (format_056d 2) = 56 \<and> list_all is_digit (format_056d 2)
   \<and> py_int (format_056d 2) = Some 2"
proof -
  note th = upload_sequence_token [where calls = ascii_calls and eid' = 0 and log_id = 0
      and now' = 0 and r = "''us-east-1''" and g = "''group''" and n = "''stream''"
      and s = "LogStream 0 0 ''us-east-1'' ''group'' ''stream''" and k = 2]
  have l: "length ascii_calls = 2" by (simp add: ascii_calls_def)
  have u: "[1..<Suc 2] = [1, 2]" by code_simp
  have z: "uploadSequenceToken (LogStream 0 0 ''us-east-1'' ''group'' ''stream'') = 0"
    by (simp add: LogStream_def)
  have k: "(0::int) \<le> 2 \<and> (2::int) < 10 ^ 56" by simp
  from th have "fst (put_all ascii_calls 0 (LogStream 0 0 ''us-east-1'' ''group'' ''stream''))
       = map (\<lambda>k. format_056d (int k)) [1..<Suc (length ascii_calls)]"
    by blast
  then have c1: "fst (put_all ascii_calls 0 (LogStream 0 0 ''us-east-1'' ''group'' ''stream''))
     = [format_056d 1, format_056d 2]"
    by (simp only: l u) simp
  from th have "uploadSequenceToken
        (fst (snd (put_all ascii_calls 0 (LogStream 0 0 ''us-east-1'' ''group'' ''stream''))))
       = uploadSequenceToken (LogStream 0 0 ''us-east-1'' ''group'' ''stream'') + len ascii_calls"
    by blast
  then have c2: "uploadSequenceToken
        (fst (snd (put_all ascii_calls 0 (LogStream 0 0 ''us-east-1'' ''group'' ''stream'')))) = 2"
    by (simp add: z l len_def)
  from th k have c3: "length (format_056d 2) = 56 \<and> list_all is_digit (format_056d 2)
        \<and> py_int (format_056d 2) = Some 2"
    by blast
  from c1 c2 k c3 show ?thesis by simp
qed

text \<open>
  C9. \<open>create_log_group\<close> succeeds when the name is absent and stores the new group
  under it; it fails with \<open>ResourceAlreadyExistsException\<close> when the name is present,
  in particular right after a successful creation. \<open>delete_log_group\<close> succeeds on a
  present name, and after it a \<open>create_log_group\<close> with the same name succeeds.
\<close>

theorem create_delete_log_group:
  "(nm \<notin> set (map fst (groups b)) \<longrightarrow>
      (\<exists>b'. create_log_group now nm tg b = Inr b'
         \<and> map_of (groups b') nm = Some (LogGroup now (region_name b) nm tg)))
   \<and> (nm \<in> set (map fst (groups b)) \<longrightarrow>
        create_log_group now nm tg b = Inl ResourceAlreadyExistsException)
   \<and> (create_log_group now nm tg b = Inr bc \<longrightarrow>
        create_log_group now' nm tg' bc = Inl ResourceAlreadyExistsException)
   \<and> (nm \<in> set (map fst (groups b)) \<longrightarrow> (\<exists>b'. delete_log_group nm b = Inr b'))
   \<and> (delete_log_group nm b = Inr bd \<longrightarrow>
        (\<exists>b'. create_log_group now' nm tg' bd = Inr b'
           \<and> map_of (groups b') nm = Some (LogGroup now' (region_name b) nm tg')))"
proof (intro conjI impI)
  assume a: "nm \<notin> set (map fst (groups b))"
  let ?b' = "b\<lparr> groups := AList.update nm (LogGroup now (region_name b) nm tg) (groups b) \<rparr>"
  have "map_of (groups ?b') nm = Some (LogGroup now (region_name b) nm tg)"
    by (simp add: update_conv')
  with create_log_group_fresh[OF a]
  show "\<exists>b'. create_log_group now nm tg b = Inr b'
         \<and> map_of (groups b') nm = Some (LogGroup now (region_name b) nm tg)"
    by (intro exI[of _ ?b'] conjI)
next
  assume "nm \<in> set (map fst (groups b))"
  then show "create_log_group now nm tg b = Inl ResourceAlreadyExistsException"
    by (rule create_log_group_present)
next
  assume "create_log_group now nm tg b = Inr bc"
  then have "nm \<in> set (map fst (groups bc))" by (rule create_log_group_keys)
  then show "create_log_group now' nm tg' bc = Inl ResourceAlreadyExistsException"
    by (rule create_log_group_present)
next
  assume "nm \<in> set (map fst (groups b))"
  then show "\<exists>b'. delete_log_group nm b = Inr b'"
    by (simp add: delete_log_group_def)
next
  assume "delete_log_group nm b = Inr bd"
  then have bd: "bd = b\<lparr> groups := AList.delete nm (groups b) \<rparr>"
    by (rule delete_log_group_Inr)
  have "nm \<notin> set (map fst (groups bd))"
    unfolding bd using delete_lacks_key[of nm] by simp
  from create_log_group_fresh[OF this]
  have c: "create_log_group now' nm tg' bd
      = Inr (bd\<lparr> groups := AList.update nm (LogGroup now' (region_name bd) nm tg') (groups bd) \<rparr>)" .
  have r: "region_name bd = region_name b" by (simp add: bd)
  have "map_of (groups (bd\<lparr> groups := AList.update nm (LogGroup now' (region_name bd) nm tg') (groups bd) \<rparr>)) nm
      = Some (LogGroup now' (region_name b) nm tg')"
    by (simp add: update_conv' r)
  with c show "\<exists>b'. create_log_group now' nm tg' bd = Inr b'
           \<and> map_of (groups b') nm = Some (LogGroup now' (region_name b) nm tg')"
    by (intro exI[of _ "bd\<lparr> groups := AList.update nm (LogGroup now' (region_name bd) nm tg') (groups bd) \<rparr>"] conjI)
qed

theorem create_delete_log_group_witness:
  "''g'' \<notin> set (map fst (groups example_backend))
   \<and> (\<exists>bc. create_log_group 1 ''g'' None example_backend = Inr bc
        \<and> ''g'' \<in> set (map fst (groups bc))
        \<and> create_log_group 2 ''g'' None bc = Inl ResourceAlreadyExistsException
        \<and> (\<exists>bd. delete_log_group ''g'' bc = Inr bd
             \<and> (\<exists>be. create_log_group 3 ''g'' None bd = Inr be)))"
proof -
  have a: "''g'' \<notin> set (map fst (groups example_backend))"
    by (simp add: example_backend_def)
  note th1 = create_delete_log_group [where nm = "''g''" and b = example_backend and now = 1
      and tg = None and now' = 2 and tg' = None]
  from th1 [THEN conjunct1, THEN mp, OF a]
  obtain bc where bc: "create_log_group 1 ''g'' None example_backend = Inr bc"
    by (elim exE conjE)
  have again: "create_log_group 2 ''g'' None bc = Inl ResourceAlreadyExistsException"
    by (rule th1 [where bc = bc, THEN conjunct2, THEN conjunct2, THEN conjunct1, THEN mp, OF bc])
  from bc have k: "''g'' \<in> set (map fst (groups bc))" by (rule create_log_group_keys)
  note th2 = create_delete_log_group [where nm = "''g''" and b = bc and now' = 3 and tg' = None]
  from th2 [THEN conjunct2, THEN conjunct2, THEN conjunct2, THEN conjunct1, THEN mp, OF k]
  obtain bd where bd: "delete_log_group ''g'' bc = Inr bd"
    by (elim exE)
  from th2 [where bd = bd, THEN conjunct2, THEN conjunct2, THEN conjunct2, THEN conjunct2,
      THEN mp, OF bd]
  obtain be where be: "create_log_group 3 ''g'' None bd = Inr be"
    by (elim exE conjE)
  from be have "\<exists>be. create_log_group 3 ''g'' None bd = Inr be" ..
  with bd have "\<exists>bd. delete_log_group ''g'' bc = Inr bd
             \<and> (\<exists>be. create_log_group 3 ''g'' None bd = Inr be)"
    by blast
  with bc k again have "\<exists>bc. create_log_group 1 ''g'' None example_backend = Inr bc
        \<and> ''g'' \<in> set (map fst (groups bc))
        \<and> create_log_group 2 ''g'' None bc = Inl ResourceAlreadyExistsException
        \<and> (\<exists>bd. delete_log_group ''g'' bc = Inr bd
             \<and> (\<exists>be. create_log_group 3 ''g'' None bd = Inr be))"
    by blast
  with a show ?thesis by (rule conjI)
qed



text \<open>
  C6. A pattern that is not empty is rejected by the stream, not by the group: the group
  calls \<open>filter_log_events\<close> of each selected stream and raises what the first one
  raises. With no selected stream (an empty group, or names that match no stream) the
  loop body never runs and the call returns an empty result.
\<close>

theorem filter_pattern_dropped_without_streams:
  "LogGroup_filter_log_events (LogGroup 0 ''us-east-1'' ''group'' None) None None None 10 None
       (Some ''ERROR'') False
     = Inr ([], None, [])
   \<and> LogGroup_filter_log_events
       ((LogGroup 0 ''us-east-1'' ''group'' None)\<lparr> streams := [(''stream'', example_stream)] \<rparr>)
       (Some [''other'']) None None 10 None (Some ''ERROR'') False
     = Inr ([], None, [])
   \<and> LogGroup_filter_log_events
       ((LogGroup 0 ''us-east-1'' ''group'' None)\<lparr> streams := [(''stream'', example_stream)] \<rparr>)
       None None None 10 None (Some ''ERROR'') False
     = Inl (NotImplementedError ''filter_pattern is not yet implemented'')"
  by code_simp

text \<open>
  C8. Whenever the group's \<open>filter_log_events\<close> returns, the page is a slice of one
  list. With \<open>interleaved\<close> that list is the events of all selected streams sorted
  by timestamp, so the page is in ascending order of timestamp across streams. Without
  it the list is the contributions of the selected streams one after the other in the
  order of the dict, each sorted by timestamp on its own. The call returns whenever no
  pattern is given, and a limit that covers the list returns all of it.
\<close>

theorem filter_log_events_interleaving:
  "(LogGroup_filter_log_events g names a b limit tok fp True = Inr (page, nt, searched) \<longrightarrow>
      sorted (map fd_timestamp page)
      \<and> page = py_slice (sort_key fd_timestamp (concatenated_parts g names a b))
                 (case tok of None \<Rightarrow> 0 | Some t \<Rightarrow> t)
                 ((case tok of None \<Rightarrow> 0 | Some t \<Rightarrow> t) + limit))
   \<and> mset (sort_key fd_timestamp (concatenated_parts g names a b))
       = mset (concatenated_parts g names a b)
   \<and> (LogGroup_filter_log_events g names a b limit tok fp False = Inr (page', nt', searched') \<longrightarrow>
        page' = py_slice (concatenated_parts g names a b)
                  (case tok of None \<Rightarrow> 0 | Some t \<Rightarrow> t)
                  ((case tok of None \<Rightarrow> 0 | Some t \<Rightarrow> t) + limit))
   \<and> list_all (\<lambda>stream. sorted (map fd_timestamp (stream_part stream a b)))
         (selected_streams g names)
   \<and> (fp = None \<or> fp = Some [] \<longrightarrow>
        (\<exists>r. LogGroup_filter_log_events g names a b limit tok fp interleaved = Inr r))
   \<and> ((fp = None \<or> fp = Some []) \<and> len (concatenated_parts g names a b) \<le> limit \<longrightarrow>
        LogGroup_filter_log_events g names a b limit None fp True
          = Inr (sort_key fd_timestamp (concatenated_parts g names a b), None,
                 map (\<lambda>stream. (logStreamName stream, True)) (selected_streams g names))
        \<and> LogGroup_filter_log_events g names a b limit None fp False
          = Inr (concatenated_parts g names a b, None,
                 map (\<lambda>stream. (logStreamName stream, True)) (selected_streams g names)))"
proof (intro conjI impI)
  assume "LogGroup_filter_log_events g names a b limit tok fp True = Inr (page, nt, searched)"
  from LogGroup_filter_log_events_returns[OF this]
  show p: "page = py_slice (sort_key fd_timestamp (concatenated_parts g names a b))
                 (case tok of None \<Rightarrow> 0 | Some t \<Rightarrow> t)
                 ((case tok of None \<Rightarrow> 0 | Some t \<Rightarrow> t) + limit)"
    by simp
  show "sorted (map fd_timestamp page)"
    unfolding p by (rule sorted_py_slice) simp
next
  show "mset (sort_key fd_timestamp (concatenated_parts g names a b))
         = mset (concatenated_parts g names a b)"
    by simp
next
  assume "LogGroup_filter_log_events g names a b limit tok fp False = Inr (page', nt', searched')"
  from LogGroup_filter_log_events_returns[OF this]
  show "page' = py_slice (concatenated_parts g names a b)
                  (case tok of None \<Rightarrow> 0 | Some t \<Rightarrow> t)
                  ((case tok of None \<Rightarrow> 0 | Some t \<Rightarrow> t) + limit)"
    by simp
next
  show "list_all (\<lambda>stream. sorted (map fd_timestamp (stream_part stream a b)))
           (selected_streams g names)"
    by (simp add: list_all_iff stream_part_sorted)
next
  assume fp: "fp = None \<or> fp = Some []"
  show "\<exists>r. LogGroup_filter_log_events g names a b limit tok fp interleaved = Inr r"
    by (simp add: LogGroup_filter_log_events_no_pattern[OF fp])
next
  assume "(fp = None \<or> fp = Some []) \<and> len (concatenated_parts g names a b) \<le> limit"
  then have fp: "fp = None \<or> fp = Some []"
    and whole: "len (concatenated_parts g names a b) \<le> limit" by simp_all
  note r = LogGroup_filter_log_events_no_pattern[OF fp]
  from whole have w2: "len (sort_key fd_timestamp (concatenated_parts g names a b)) \<le> limit"
    by (simp add: len_def)
  show "LogGroup_filter_log_events g names a b limit None fp True
            = Inr (sort_key fd_timestamp (concatenated_parts g names a b), None,
                   map (\<lambda>stream. (logStreamName stream, True)) (selected_streams g names))"
    using whole by (simp add: r py_slice_whole[OF w2, simplified])
  show "LogGroup_filter_log_events g names a b limit None fp False
            = Inr (concatenated_parts g names a b, None,
                   map (\<lambda>stream. (logStreamName stream, True)) (selected_streams g names))"
    using whole by (simp add: r py_slice_whole[OF whole, simplified])
qed

theorem filter_log_events_interleaving_witness:
  "len (concatenated_parts example_group None None None) \<le> 10
   \<and> map_sum id (\<lambda>r. map fd_timestamp (fst r))
        (LogGroup_filter_log_events example_group None None None 10 None None True)
       = Inr [10, 20, 30, 40, 50]
   \<and> map_sum id (\<lambda>r. map fd_timestamp (fst r))
        (LogGroup_filter_log_events example_group None None None 10 None None False)
       = Inr [10, 30, 50, 20, 40]
   \<and> map_sum id (\<lambda>r. map fd_logStreamName (fst r))
        (LogGroup_filter_log_events example_group None None None 10 None None False)
       = Inr [''a'', ''a'', ''a'', ''b'', ''b'']"
proof -
  have l: "len (concatenated_parts example_group None None None) \<le> 10"
    by code_simp
  have fp: "(None :: string option) = None \<or> (None :: string option) = Some []"
    by simp
  note th = filter_log_events_interleaving [where g = example_group and names = None
      and a = None and b = None and limit = 10 and tok = None and fp = None]
  note whole = th [THEN conjunct2, THEN conjunct2, THEN conjunct2, THEN conjunct2, THEN conjunct2,
      THEN mp, OF conjI, OF fp l]
  have v1: "map fd_timestamp (sort_key fd_timestamp (concatenated_parts example_group None None None))
      = [10, 20, 30, 40, 50]"
    by code_simp
  have v2: "map fd_timestamp (concatenated_parts example_group None None None)
      = [10, 30, 50, 20, 40]"
    by code_simp
  have v3: "map fd_logStreamName (concatenated_parts example_group None None None)
      = [''a'', ''a'', ''a'', ''b'', ''b'']"
    by code_simp
  show ?thesis
    using l v1 v2 v3 by (simp add: whole [THEN conjunct1] whole [THEN conjunct2])
qed

end
